theory Spec2Isabelle
  imports Main
begin

section \<open>Decoded response bodies and Python's operations on them\<close>

text \<open>
  A decoded JSON body, as \<open>res.json()\<close> returns it. An object keeps its members in
  an association list whose keys are distinct (the decoder keeps one value per key).
  Numbers are the integers; fractional numbers are outside this development.
  JSON \<open>null\<close> decodes to Python's \<open>None\<close>: \<open>JNull\<close> is also the \<open>None\<close> that a
  method of the client returns, and \<open>response is None\<close> is \<open>response = JNull\<close>.
\<close>

datatype json =
    JNull
  | JBool bool
  | JInt int
  | JStr string
  | JList "json list"
  | JObj "(string \<times> json) list"

text \<open>The exceptions that leave a method of the client.\<close>

datatype error =
    ValueError string
  | RuntimeError string
  | KeyError string
  | TypeError
  | ZeroDivisionError
  | JSONDecodeError
  | OtherException

text \<open>Python's truth value of a decoded body (\<open>if cached_value:\<close>, \<open>if not response:\<close>).\<close>

fun truthy :: "json \<Rightarrow> bool" where
  "truthy JNull = False"
| "truthy (JBool b) = b"
| "truthy (JInt i) = (i \<noteq> 0)"
| "truthy (JStr s) = (s \<noteq> [])"
| "truthy (JList xs) = (xs \<noteq> [])"
| "truthy (JObj kvs) = (kvs \<noteq> [])"

text \<open>\<open>body[key]\<close> for a string key: only an object can be indexed by a string.\<close>

fun py_getitem :: "json \<Rightarrow> string \<Rightarrow> error + json" where
  "py_getitem (JObj kvs) k = (case map_of kvs k of None \<Rightarrow> Inl (KeyError k) | Some v \<Rightarrow> Inr v)"
| "py_getitem _ k = Inl TypeError"

text \<open>\<open>len(v)\<close>: defined on lists, strings and objects.\<close>

fun py_len :: "json \<Rightarrow> error + nat" where
  "py_len (JList xs) = Inr (length xs)"
| "py_len (JStr s) = Inr (length s)"
| "py_len (JObj kvs) = Inr (length kvs)"
| "py_len _ = Inl TypeError"

text \<open>
  The elements \<open>results += v\<close> appends: the items of a list, the characters of a
  string, the keys of an object.
\<close>

fun py_iter :: "json \<Rightarrow> error + json list" where
  "py_iter (JList xs) = Inr xs"
| "py_iter (JStr s) = Inr (map (\<lambda>ch. JStr [ch]) s)"
| "py_iter (JObj kvs) = Inr (map (\<lambda>kv. JStr (fst kv)) kvs)"
| "py_iter _ = Inl TypeError"

section \<open>The world the client acts on\<close>

text \<open>
  One HTTP exchange of the session ends in a response (status code and, when the body
  is JSON, its decoding) or in an exception of the transport.
\<close>

datatype http_request =
    HttpGet string
  | HttpPost string "(string \<times> string) list option" "json option"

datatype http_outcome =
    Response nat "json option"
  | ConnectionFailed
  | TimedOut
  | OtherFailure

text \<open>
  The service: what the n-th request of the session (counted from 0) is answered with.
\<close>

type_synonym server = "nat \<Rightarrow> http_request \<Rightarrow> http_outcome"

text \<open>Why an attempt failed: the exception \<open>e\<close> caught by \<open>except Exception as e\<close>.\<close>

datatype failure =
    ConnErr
  | TimeoutErr
  | DecodeErr
  | HttpErr nat "json option"
  | OtherErr

text \<open>The lines written to the logger, by level and template.\<close>

datatype log_entry =
    InfoGetRetry
  | InfoPostRetry
  | ErrorException failure
  | ErrorGetOccurred failure string
  | ErrorBodyJson json
  | ErrorBodyRaw
  | ErrorUnauthorized string
  | ErrorPostHttp nat string
  | InfoPayload "json option"
  | InfoResponse nat json
  | ErrorPostOccurred failure string
  | ErrorUsage string

text \<open>
  Everything a call can observe or change: the shared cache, the requests sent over the
  session so far, the sleeps taken and the lines logged (each oldest first).
\<close>

record world =
  cache :: "string \<rightharpoonup> (json \<times> int)"
  sent :: "http_request list"
  slept :: "nat list"
  logged :: "log_entry list"

text \<open>The fields of an \<open>ODataClient\<close> instance that the methods read.\<close>

record client =
  principal :: string
  query_cache_timeout_hours :: int
  cache_query_requests :: bool

definition SLEEP_TIME :: nat where
  "SLEEP_TIME = 60"

definition RETRIES :: nat where
  "RETRIES = 1"

text \<open>
  Modelled from the spec: the class \<open>RedisCache\<close> is not among the sources. The spec gives
  its interface, \<open>retrieve(key) -> value | absent\<close> and
  \<open>store(key, value, ttl-hours) -> void\<close>, a keyed store from the request URI to a decoded
  body with a time-to-live per entry. Expiry is not modelled: an entry stays until it is
  overwritten.
\<close>

definition retrieve :: "world \<Rightarrow> string \<Rightarrow> json option" where
  "retrieve w key = map_option fst (cache w key)"

definition store :: "world \<Rightarrow> string \<Rightarrow> json \<Rightarrow> int \<Rightarrow> world" where
  "store w key v ttl = w\<lparr>cache := (cache w)(key \<mapsto> (v, ttl))\<rparr>"

definition log_line :: "log_entry \<Rightarrow> world \<Rightarrow> world" where
  "log_line e w = w\<lparr>logged := logged w @ [e]\<rparr>"

definition sleep :: "nat \<Rightarrow> world \<Rightarrow> world" where
  "sleep t w = w\<lparr>slept := slept w @ [t]\<rparr>"

section \<open>The request engine\<close>

text \<open>\<open>uri.strip('/')\<close>: every leading and trailing slash is dropped.\<close>

definition strip_slash :: "string \<Rightarrow> string" where
  "strip_slash s = rev (dropWhile (\<lambda>ch. ch = CHR ''/'') (rev (dropWhile (\<lambda>ch. ch = CHR ''/'') s)))"

text \<open>
  \<open>res.raise_for_status()\<close> raises for the statuses 400 to 599; \<open>res.json()\<close> raises
  when the body is not JSON.
\<close>

fun attempt_result :: "http_outcome \<Rightarrow> failure + json" where
  "attempt_result (Response status body) =
     (if 400 \<le> status \<and> status < 600 then Inl (HttpErr status body)
      else (case body of None \<Rightarrow> Inl DecodeErr | Some b \<Rightarrow> Inr b))"
| "attempt_result ConnectionFailed = Inl ConnErr"
| "attempt_result TimedOut = Inl TimeoutErr"
| "attempt_result OtherFailure = Inl OtherErr"

text \<open>One request over the session: the service answers, the request is on record.\<close>

definition send :: "server \<Rightarrow> http_request \<Rightarrow> world \<Rightarrow> (failure + json) \<times> world" where
  "send srv req w = (attempt_result (srv (length (sent w)) req), w\<lparr>sent := sent w @ [req]\<rparr>)"

text \<open>
  \<open>_use_cache = self.cache_query_requests or use_cache and use_cache != False\<close>:
  \<open>and\<close> binds tighter than \<open>or\<close>. The argument \<open>use_cache\<close> is \<open>None\<close>, \<open>True\<close> or
  \<open>False\<close>; only \<open>True\<close> is truthy.
\<close>

definition use_cache_in_effect :: "client \<Rightarrow> bool option \<Rightarrow> bool" where
  "use_cache_in_effect c use_cache =
     (cache_query_requests c \<or> (use_cache = Some True \<and> use_cache \<noteq> Some False))"

text \<open>
  What \<open>get\<close> does once the retries are used up: \<open>raise e\<close> inside a \<open>try\<close> whose
  handlers name the connection, timeout, decode and HTTP errors. Any other exception
  leaves \<open>get\<close>.
\<close>

fun get_give_up :: "client \<Rightarrow> string \<Rightarrow> failure \<Rightarrow> world \<Rightarrow> (error + json) \<times> world" where
  "get_give_up c uri (HttpErr status body) w =
     (let w1 = log_line (ErrorException (HttpErr status body)) w;
          w2 = log_line (case body of Some b \<Rightarrow> ErrorBodyJson b | None \<Rightarrow> ErrorBodyRaw) w1;
          w3 = (if status = 403 then log_line (ErrorUnauthorized (principal c)) w2 else w2)
      in (Inr JNull, w3))"
| "get_give_up c uri OtherErr w = (Inl OtherException, w)"
| "get_give_up c uri f w =
     (Inr JNull, log_line (ErrorGetOccurred f uri) (log_line (ErrorException f) w))"

text \<open>
  The \<open>while True\<close> loop of \<open>get\<close>, by the retries left: a success is stored when
  caching is in effect and returned; a failure with a retry left logs, sleeps and tries
  again.
\<close>

fun get_retry :: "server \<Rightarrow> client \<Rightarrow> string \<Rightarrow> bool \<Rightarrow> nat \<Rightarrow> world \<Rightarrow> (error + json) \<times> world" where
  "get_retry srv c uri uc current_retries w =
     (case send srv (HttpGet (strip_slash uri)) w of
        (Inr body, w1) \<Rightarrow>
          (Inr body, if uc then store w1 uri body (query_cache_timeout_hours c) else w1)
      | (Inl f, w1) \<Rightarrow>
          (case current_retries of
             Suc n \<Rightarrow> get_retry srv c uri uc n (sleep SLEEP_TIME (log_line InfoGetRetry w1))
           | 0 \<Rightarrow> get_give_up c uri f w1))"

declare get_retry.simps [simp del]

definition get :: "server \<Rightarrow> client \<Rightarrow> string \<Rightarrow> bool option \<Rightarrow> world \<Rightarrow> (error + json) \<times> world" where
  "get srv c uri use_cache w =
     (let uc = use_cache_in_effect c use_cache;
          cached_value = (if uc then retrieve w uri else None)
      in case cached_value of
           Some v \<Rightarrow> if truthy v then (Inr v, w) else get_retry srv c uri uc RETRIES w
         | None \<Rightarrow> get_retry srv c uri uc RETRIES w)"

text \<open>
  What \<open>post\<close> does once the retries are used up. The HTTP handler formats
  \<open>res.json()\<close> into a log line before it tests the status, with no guard around it.
\<close>

fun post_give_up :: "client \<Rightarrow> string \<Rightarrow> json option \<Rightarrow> failure \<Rightarrow> world \<Rightarrow> (error + json) \<times> world" where
  "post_give_up c target payload (HttpErr status body) w =
     (let w1 = log_line (InfoPayload payload) (log_line (ErrorPostHttp status target) w)
      in case body of
           None \<Rightarrow> (Inl JSONDecodeError, w1)
         | Some b \<Rightarrow>
             (let w2 = log_line (InfoResponse status b) w1
              in if status = 403
                 then (Inl (RuntimeError ''Access was denied''),
                       log_line (ErrorUnauthorized (principal c)) w2)
                 else (Inr JNull, w2)))"
| "post_give_up c target payload f w =
     (Inr JNull, log_line (InfoPayload payload) (log_line (ErrorPostOccurred f target) w))"

fun post_retry :: "server \<Rightarrow> client \<Rightarrow> string \<Rightarrow> string \<Rightarrow> json option \<Rightarrow> (string \<times> string) list option \<Rightarrow> nat \<Rightarrow> world \<Rightarrow> (error + json) \<times> world" where
  "post_retry srv c uri command payload headers current_retries w =
     (case send srv (HttpPost (strip_slash uri @ ''/'' @ command) headers payload) w of
        (Inr body, w1) \<Rightarrow> (Inr body, w1)
      | (Inl f, w1) \<Rightarrow>
          (case current_retries of
             Suc n \<Rightarrow> post_retry srv c uri command payload headers n
                        (sleep SLEEP_TIME (log_line InfoPostRetry w1))
           | 0 \<Rightarrow> post_give_up c (uri @ ''/'' @ command) payload f w1))"

definition post :: "server \<Rightarrow> client \<Rightarrow> string \<Rightarrow> string \<Rightarrow> json option \<Rightarrow> (string \<times> string) list option \<Rightarrow> world \<Rightarrow> (error + json) \<times> world" where
  "post srv c uri command payload headers w =
     post_retry srv c uri command payload headers RETRIES w"

declare post_retry.simps [simp del]

section \<open>Query strings\<close>

text \<open>
  The fields of \<open>urlparse(url)\<close> that the client reads. \<open>urlparse\<close> belongs to
  Python's standard library; the operations below take it as a parameter, so every result
  holds for whatever it returns.
\<close>

record parse_result =
  scheme :: string
  netloc :: string
  path :: string
  query :: string

type_synonym urlparse = "string \<Rightarrow> parse_result"

text \<open>\<open>s.split(sep)\<close> for a one-character separator: the empty string gives \<open>['']\<close>.\<close>

fun split_on :: "char \<Rightarrow> string \<Rightarrow> string list" where
  "split_on sep [] = [[]]"
| "split_on sep (ch # s) =
     (if ch = sep then [] # split_on sep s
      else (case split_on sep s of p # ps \<Rightarrow> (ch # p) # ps | [] \<Rightarrow> [[ch]]))"

text \<open>\<open>param.split('=', 1)\<close>: split at the first separator, if there is one.\<close>

definition split_first :: "char \<Rightarrow> string \<Rightarrow> string list" where
  "split_first sep s =
     (if sep \<in> set s then [takeWhile (\<lambda>ch. ch \<noteq> sep) s, tl (dropWhile (\<lambda>ch. ch \<noteq> sep) s)]
      else [s])"

text \<open>
  A Python dictionary with string keys, in insertion order: assigning to a key that is
  present replaces its value in place, assigning to a new key appends it.
\<close>

type_synonym dict = "(string \<times> string) list"

fun dict_set :: "dict \<Rightarrow> string \<Rightarrow> string \<Rightarrow> dict" where
  "dict_set [] k v = [(k, v)]"
| "dict_set ((k', v') # d) k v = (if k' = k then (k, v) # d else (k', v') # dict_set d k v)"

definition dict_has :: "dict \<Rightarrow> string \<Rightarrow> bool" where
  "dict_has d k = (k \<in> fst ` set d)"

text \<open>
  The loop of \<open>parse_query\<close>. \<open>[key, value] = param.split('=', 1)\<close> raises ValueError
  when the parameter has no \<open>=\<close>.
\<close>

fun parse_params :: "string list \<Rightarrow> dict \<Rightarrow> error + dict" where
  "parse_params [] query_dict = Inr query_dict"
| "parse_params (param # params) query_dict =
     (if param \<noteq> [] then
        (case split_first CHR ''='' param of
           [key, val] \<Rightarrow> parse_params params (dict_set query_dict key val)
         | _ \<Rightarrow> Inl (ValueError ''not enough values to unpack (expected 2, got 1)''))
      else parse_params params query_dict)"

definition parse_query :: "parse_result \<Rightarrow> error + dict" where
  "parse_query url = parse_params (split_on CHR ''&'' (query url)) []"

section \<open>Decimal text of integers\<close>

function str_nat :: "nat \<Rightarrow> string" where
  "str_nat n =
     (if n < 10 then [''0123456789'' ! n]
      else str_nat (n div 10) @ [''0123456789'' ! (n mod 10)])"
  by pat_completeness auto
termination
  by (relation "measure id") auto

declare str_nat.simps [simp del]

definition str_int :: "int \<Rightarrow> string" where
  "str_int i = (if i < 0 then CHR ''-'' # str_nat (nat (- i)) else str_nat (nat i))"

section \<open>Paged retrieval\<close>

text \<open>\<open>total_records == -1\<close>, for the initial \<open>-1\<close> or a decoded \<open>@odata.count\<close>.\<close>

fun py_eq_int :: "json \<Rightarrow> int \<Rightarrow> bool" where
  "py_eq_int (JInt i) k = (i = k)"
| "py_eq_int (JBool b) k = ((if b then 1 else 0) = k)"
| "py_eq_int _ k = False"

text \<open>\<open>len(results) < total_records\<close>: an integer compares with numbers only.\<close>

fun py_int_less :: "int \<Rightarrow> json \<Rightarrow> error + bool" where
  "py_int_less n (JInt i) = Inr (n < i)"
| "py_int_less n (JBool b) = Inr (n < (if b then 1 else 0))"
| "py_int_less n _ = Inl TypeError"

definition while_test :: "json \<Rightarrow> json list \<Rightarrow> error + bool" where
  "while_test total_records results =
     (if py_eq_int total_records (- 1) then Inr True
      else py_int_less (int (length results)) total_records)"

definition page_uri :: "string \<Rightarrow> string \<Rightarrow> int \<Rightarrow> nat \<Rightarrow> string" where
  "page_uri url sep page_size skip =
     url @ sep @ ''$top='' @ str_int page_size @ ''&$skip='' @ str_nat skip
       @ ''&$count=true''"

text \<open>
  One pass of the \<open>while\<close> loop of \<open>get_paged\<close>, on the state \<open>(results,
  total_records, world)\<close>: it either returns from \<open>get_paged\<close> or goes round again. The
  progress bar is display only and is left out.
\<close>

datatype ('s, 'r) iteration = Continue 's | Return 'r

type_synonym paged_state = "json list \<times> json \<times> world"

definition paged_iteration :: "server \<Rightarrow> client \<Rightarrow> string \<Rightarrow> string \<Rightarrow> int \<Rightarrow> bool option \<Rightarrow> paged_state \<Rightarrow> (paged_state, (error + json) \<times> world) iteration" where
  "paged_iteration srv c url sep page_size use_cache st =
     (case st of (results, total_records, w) \<Rightarrow>
        (case while_test total_records results of
           Inl e \<Rightarrow> Return (Inl e, w)
         | Inr False \<Rightarrow> Return (Inr (JObj [(''value'', JList results)]), w)
         | Inr True \<Rightarrow>
             (case get srv c (page_uri url sep page_size (length results)) use_cache w of
                (Inl e, w1) \<Rightarrow> Return (Inl e, w1)
              | (Inr response, w1) \<Rightarrow>
                  if response = JNull then Return (Inr JNull, w1)
                  else
                  (case py_getitem response ''value'' of
                     Inl e \<Rightarrow> Return (Inl e, w1)
                   | Inr v \<Rightarrow>
                       (case py_len v of
                          Inl e \<Rightarrow> Return (Inl e, w1)
                        | Inr n \<Rightarrow>
                            if n = 0 then Return (Inr (JObj [(''value'', JList results)]), w1)
                            else (case py_iter v of
                                    Inl e \<Rightarrow> Return (Inl e, w1)
                                  | Inr items \<Rightarrow>
                                      if py_eq_int total_records (- 1)
                                      then (case py_getitem response ''@odata.count'' of
                                              Inl e \<Rightarrow> Return (Inl e, w1)
                                            | Inr t \<Rightarrow> Continue (results @ items, t, w1))
                                      else Continue (results @ items, total_records, w1)))))))"

text \<open>The loop itself. It need not end: \<open>None\<close> is a call that never returns.\<close>

partial_function (option) get_paged_loop :: "server \<Rightarrow> client \<Rightarrow> string \<Rightarrow> string \<Rightarrow> int \<Rightarrow> bool option \<Rightarrow> paged_state \<Rightarrow> ((error + json) \<times> world) option" where
  "get_paged_loop srv c url sep page_size use_cache st =
     (case paged_iteration srv c url sep page_size use_cache st of
        Return r \<Rightarrow> Some r
      | Continue st' \<Rightarrow> get_paged_loop srv c url sep page_size use_cache st')"

text \<open>\<open>query_separator = '?' if parsed_url.query == '' else '&'\<close>.\<close>

definition query_separator :: "parse_result \<Rightarrow> string" where
  "query_separator parsed_url = (if query parsed_url = [] then ''?'' else ''&'')"

definition usage_message :: "string \<Rightarrow> string" where
  "usage_message url =
     ''URL cannot include $top, $skip, or $count in the query string when using get_paged() - called with ''
       @ [CHR 0x22] @ url @ [CHR 0x22]"

definition get_paged :: "server \<Rightarrow> urlparse \<Rightarrow> client \<Rightarrow> string \<Rightarrow> int \<Rightarrow> bool option \<Rightarrow> world \<Rightarrow> ((error + json) \<times> world) option" where
  "get_paged srv urlparse c url page_size use_cache w =
     (let parsed_url = urlparse url;
          sep = query_separator parsed_url
      in case parse_query parsed_url of
           Inl e \<Rightarrow> Some (Inl e, w)
         | Inr query_dict \<Rightarrow>
             if dict_has query_dict ''$top'' \<or> dict_has query_dict ''$skip''
                \<or> dict_has query_dict ''$count''
             then Some (Inl (ValueError (usage_message url)),
                        log_line (ErrorUsage (usage_message url)) w)
             else get_paged_loop srv c url sep page_size use_cache
                    ([], JInt (- 1), w))"

section \<open>Chunked retrieval\<close>

text \<open>
  \<open>pydash.arrays.chunk(array, size)\<close>, a library function: it computes
  \<open>ceil(len(array) / float(size))\<close> and returns that many slices
  \<open>array[i * size : (i + 1) * size]\<close>. For a size from 1 on, with size and length below
  \<open>2 ^ 53\<close>, the float division gives the exact ceiling. What the library does for other
  sizes (zero, negative, beyond the floats) differs between its versions; that part is a
  parameter.
\<close>

type_synonym 'a chunk_other = "'a list \<Rightarrow> int \<Rightarrow> error + 'a list list"

definition chunk :: "'a chunk_other \<Rightarrow> 'a list \<Rightarrow> int \<Rightarrow> error + 'a list list" where
  "chunk other array sz =
     (if 0 < sz \<and> sz < 2 ^ 53 \<and> length array < 2 ^ 53
      then Inr (map (\<lambda>i. take (nat sz) (drop (i * nat sz) array))
                  [0 ..< (length array + nat sz - 1) div nat sz])
      else other array sz)"

text \<open>The values of \<open>to_chunk_list\<close>, and \<open>str(chunk_value)\<close>.\<close>

datatype pyval = PInt int | PStr string

fun py_str :: "pyval \<Rightarrow> string" where
  "py_str (PInt i) = str_int i"
| "py_str (PStr s) = s"

text \<open>
  \<open>filter.replace('{}', s)\<close>: every occurrence of the placeholder, left to right; the
  inserted text is not scanned again.
\<close>

fun replace_placeholder :: "string \<Rightarrow> string \<Rightarrow> string" where
  "replace_placeholder [] s = []"
| "replace_placeholder [ch] s = [ch]"
| "replace_placeholder (a # b # rest) s =
     (if a = CHR ''{'' \<and> b = CHR ''}'' then s @ replace_placeholder rest s
      else a # replace_placeholder (b # rest) s)"

text \<open>\<open>sep.join(parts)\<close>.\<close>

fun join :: "string \<Rightarrow> string list \<Rightarrow> string" where
  "join sep [] = []"
| "join sep [p] = p"
| "join sep (p # ps) = p @ sep @ join sep ps"

definition chunk_filters :: "string \<Rightarrow> pyval list \<Rightarrow> string list" where
  "chunk_filters flt list_chunk = map (\<lambda>chunk_value. replace_placeholder flt (py_str chunk_value)) list_chunk"

definition query_copy :: "dict \<Rightarrow> string list \<Rightarrow> dict" where
  "query_copy query_dict filters =
     (case map_of query_dict ''$filter'' of
        Some existing \<Rightarrow>
          dict_set query_dict ''$filter''
            (''('' @ existing @ '') and ('' @ join '' or '' filters @ '')'')
      | None \<Rightarrow> dict_set query_dict ''$filter'' (join '' or '' filters))"

text \<open>The loop that writes the query string, with its \<open>first_key\<close> flag.\<close>

fun build_query :: "dict \<Rightarrow> string \<Rightarrow> bool \<Rightarrow> string" where
  "build_query [] new_str first_key = new_str"
| "build_query ((k, v) # items) new_str first_key =
     (if first_key then build_query items (new_str @ k @ ''='' @ v) False
      else build_query items (new_str @ ''&'' @ k @ ''='' @ v) first_key)"

definition base_url :: "parse_result \<Rightarrow> string" where
  "base_url parsed_url = scheme parsed_url @ ''://'' @ netloc parsed_url @ path parsed_url @ ''?''"

definition chunk_uri :: "parse_result \<Rightarrow> dict \<Rightarrow> string \<Rightarrow> pyval list \<Rightarrow> string" where
  "chunk_uri parsed_url query_dict flt list_chunk =
     base_url parsed_url @ build_query (query_copy query_dict (chunk_filters flt list_chunk)) [] True"

text \<open>The \<open>for\<close> loop of \<open>get_chunked\<close> over the chunks still to do.\<close>

fun chunked_loop :: "server \<Rightarrow> client \<Rightarrow> parse_result \<Rightarrow> dict \<Rightarrow> string \<Rightarrow> pyval list list \<Rightarrow> json list \<Rightarrow> world \<Rightarrow> (error + json list option) \<times> world" where
  "chunked_loop srv c parsed_url query_dict flt [] response_list w =
     (Inr (Some response_list), w)"
| "chunked_loop srv c parsed_url query_dict flt (list_chunk # rest) response_list w =
     (case get srv c (chunk_uri parsed_url query_dict flt list_chunk) None w of
        (Inl e, w1) \<Rightarrow> (Inl e, w1)
      | (Inr response, w1) \<Rightarrow>
          if \<not> truthy response then (Inr None, w1)
          else (case py_getitem response ''value'' of
                  Inl e \<Rightarrow> (Inl e, w1)
                | Inr v \<Rightarrow>
                    (case py_iter v of
                       Inl e \<Rightarrow> (Inl e, w1)
                     | Inr items \<Rightarrow>
                         chunked_loop srv c parsed_url query_dict flt rest
                           (response_list @ items) w1)))"

text \<open>
  \<open>get_chunked\<close> returns the list of records, or \<open>None\<close> (here the \<open>None\<close> of
  \<open>option\<close>, since a list is never \<open>None\<close>).
\<close>

definition get_chunked :: "server \<Rightarrow> urlparse \<Rightarrow> pyval chunk_other \<Rightarrow> client \<Rightarrow> string \<Rightarrow> string \<Rightarrow> pyval list \<Rightarrow> int \<Rightarrow> world \<Rightarrow> (error + json list option) \<times> world" where
  "get_chunked srv urlparse other c url flt to_chunk_list chunk_size w =
     (let parsed_url = urlparse url
      in case parse_query parsed_url of
           Inl e \<Rightarrow> (Inl e, w)
         | Inr query_dict \<Rightarrow>
             (case chunk other to_chunk_list chunk_size of
                Inl e \<Rightarrow> (Inl e, w)
              | Inr chunks \<Rightarrow> chunked_loop srv c parsed_url query_dict flt chunks [] w))"

section \<open>Vocabulary of the claims\<close>

text \<open>
  The name of one parameter of a query string, and whether a query string has a parameter
  of a given name.
\<close>

definition param_name :: "string \<Rightarrow> string" where
  "param_name param = takeWhile (\<lambda>ch. ch \<noteq> CHR ''='') param"

definition query_has_param :: "string \<Rightarrow> string \<Rightarrow> bool" where
  "query_has_param qs name = (name \<in> param_name ` set (split_on CHR ''&'' qs))"

text \<open>
  A query string written out from its parameters in order: \<open>key=value\<close> pairs joined by
  \<open>&\<close>.
\<close>

definition query_string :: "dict \<Rightarrow> string" where
  "query_string d = join ''&'' (map (\<lambda>(k, v). k @ ''='' @ v) d)"

text \<open>
  Parameters that a query string determines: names distinct, no \<open>&\<close> in a name or a
  value, no \<open>=\<close> in a name.
\<close>

definition params_ok :: "dict \<Rightarrow> bool" where
  "params_ok params =
     (distinct (map fst params)
      \<and> list_all (\<lambda>(k, v). CHR ''='' \<notin> set k \<and> CHR ''&'' \<notin> set k \<and> CHR ''&'' \<notin> set v) params)"

text \<open>
  The merge of a filter into the parameters, in the words of the specification: where
  there is a \<open>$filter\<close> with value \<open>A\<close>, it becomes \<open>(A) and (D)\<close> in its place;
  otherwise \<open>$filter=D\<close> comes after the other parameters.
\<close>

definition merged_params :: "dict \<Rightarrow> string \<Rightarrow> dict" where
  "merged_params params D =
     (if ''$filter'' \<in> fst ` set params
      then map (\<lambda>(k, v). if k = ''$filter'' then (k, ''('' @ v @ '') and ('' @ D @ '')'') else (k, v))
             params
      else params @ [(''$filter'', D)])"

text \<open>
  The requests of a call that reaches some batches in turn and makes the given number of
  attempts for each: every attempt is a GET for the URI of the batch, stripped of slashes.
\<close>

definition batch_requests :: "(pyval list \<Rightarrow> string) \<Rightarrow> (pyval list \<times> nat) list \<Rightarrow> http_request list" where
  "batch_requests uri_of attempts =
     concat (map (\<lambda>(list_chunk, k). replicate k (HttpGet (strip_slash (uri_of list_chunk)))) attempts)"

text \<open>
  The outcome of calling \<open>get\<close> on each URI of a list in turn, and what it means for one
  outcome to deliver a list of records: a body whose \<open>value\<close> is that list.
\<close>

fun get_each :: "server \<Rightarrow> client \<Rightarrow> bool option \<Rightarrow> string list \<Rightarrow> world \<Rightarrow> (error + json) list \<times> world" where
  "get_each srv c use_cache [] w = ([], w)"
| "get_each srv c use_cache (uri # uris) w =
     (case get srv c uri use_cache w of
        (r, w1) \<Rightarrow> (case get_each srv c use_cache uris w1 of (rs, w2) \<Rightarrow> (r # rs, w2)))"

fun delivers :: "error + json \<Rightarrow> json list \<Rightarrow> bool" where
  "delivers (Inr body) records = (py_getitem body ''value'' = Inr (JList records))"
| "delivers (Inl e) records = False"

text \<open>
  A URL that \<open>get_paged\<close> accepts: its query string parses and names none of the paging
  parameters. The states of the \<open>while\<close> loop that one call of \<open>get_paged\<close> passes
  through, from the world \<open>w0\<close> it starts in: the initial state, and each state that a
  pass of the loop continues with.
\<close>

definition paged_url_ok :: "parse_result \<Rightarrow> bool" where
  "paged_url_ok parsed_url =
     (case parse_query parsed_url of
        Inl e \<Rightarrow> False
      | Inr q \<Rightarrow> \<not> dict_has q ''$top'' \<and> \<not> dict_has q ''$skip'' \<and> \<not> dict_has q ''$count'')"

inductive paged_reach :: "server \<Rightarrow> client \<Rightarrow> string \<Rightarrow> string \<Rightarrow> int \<Rightarrow> bool option \<Rightarrow> world \<Rightarrow> paged_state \<Rightarrow> bool"
  for srv c url sep page_size use_cache w0 where
    first: "paged_reach srv c url sep page_size use_cache w0 ([], JInt (- 1), w0)"
  | again: "paged_reach srv c url sep page_size use_cache w0 st \<Longrightarrow>
            paged_iteration srv c url sep page_size use_cache st = Continue st' \<Longrightarrow>
            paged_reach srv c url sep page_size use_cache w0 st'"

code_pred paged_reach .

text \<open>
  The URIs \<open>get_paged\<close> requests when the pages it is given are \<open>pages\<close>, in order:
  each skips the records of the pages before it. An outcome of \<open>get\<close> reports the total
  \<open>n\<close> when its body has \<open>@odata.count\<close> equal to \<open>n\<close>.
\<close>

fun page_uris :: "string \<Rightarrow> string \<Rightarrow> int \<Rightarrow> nat \<Rightarrow> json list list \<Rightarrow> string list" where
  "page_uris url sep page_size skip [] = []"
| "page_uris url sep page_size skip (page # pages) =
     page_uri url sep page_size skip # page_uris url sep page_size (skip + length page) pages"

fun reports :: "error + json \<Rightarrow> int \<Rightarrow> bool" where
  "reports (Inr body) n = (py_getitem body ''@odata.count'' = Inr (JInt n))"
| "reports (Inl e) n = False"

section \<open>Scenarios\<close>

text \<open>Concrete clients, worlds and services on which the results below are exercised.\<close>

definition caching_client :: client where
  "caching_client = \<lparr>principal = ''svc_odata'', query_cache_timeout_hours = 48, cache_query_requests = True\<rparr>"

definition plain_client :: client where
  "plain_client = \<lparr>principal = ''svc_odata'', query_cache_timeout_hours = 48, cache_query_requests = False\<rparr>"

definition fresh_world :: world where
  "fresh_world = \<lparr>cache = Map.empty, sent = [], slept = [], logged = []\<rparr>"

definition students_uri :: string where
  "students_uri = ''https://host/odata/Students''"

definition students_body :: json where
  "students_body = JObj [(''value'', JList [JObj [(''Id'', JInt 1)]])]"

definition always_ok :: server where
  "always_ok n req = Response 200 (Some students_body)"

definition always_timeout :: server where
  "always_timeout n req = TimedOut"

definition flaky_server :: server where
  "flaky_server n req = (if n = 0 then TimedOut else Response 200 (Some students_body))"

definition forbidden_page :: server where
  "forbidden_page n req = Response 403 None"

text \<open>
  \<open>urlparse\<close> on the URLs of the scenarios, which all start with \<open>https://host\<close>.
\<close>

definition example_urlparse :: urlparse where
  "example_urlparse url =
     \<lparr>scheme = ''https'', netloc = ''host'',
      path = takeWhile (\<lambda>ch. ch \<noteq> CHR ''?'') (drop 12 url),
      query = drop 1 (dropWhile (\<lambda>ch. ch \<noteq> CHR ''?'') url)\<rparr>"

definition filtered_url :: string where
  "filtered_url = ''https://host/odata/Students?$select=Id&$filter=Active eq true&$orderby=Id''"

definition id_chunk :: "pyval list" where
  "id_chunk = [PInt 7, PInt 12]"

definition five_ids :: "pyval list" where
  "five_ids = [PInt 1, PInt 2, PInt 3, PInt 4, PInt 5]"

definition student :: "int \<Rightarrow> json" where
  "student i = JObj [(''Id'', JInt i)]"

definition batch_server :: server where
  "batch_server n req =
     (if n = 0 then Response 200 (Some (JObj [(''value'', JList [student 1, student 2])]))
      else if n = 1 then Response 200 (Some (JObj [(''value'', JList [student 3, student 4])]))
      else Response 200 (Some (JObj [(''value'', JList [student 5])])))"

text \<open>
  A service whose every first attempt times out and whose every retry answers with the
  next batch; a URL with two \<open>$filter\<close> parameters; a stand-in for what the chunk
  function of the library does outside the sizes modelled, which no scenario reaches.
\<close>

definition retrying_server :: server where
  "retrying_server n req =
     (if even n then TimedOut
      else if n = 1 then Response 200 (Some (JObj [(''value'', JList [student 1, student 2])]))
      else if n = 3 then Response 200 (Some (JObj [(''value'', JList [student 3, student 4])]))
      else Response 200 (Some (JObj [(''value'', JList [student 5])])))"

definition two_filters_url :: string where
  "two_filters_url = ''https://host/odata/Students?$filter=A&x=1&$filter=B''"

definition other_sizes :: "pyval chunk_other" where
  "other_sizes array sz = Inr []"

definition batch_uris :: "string list" where
  "batch_uris =
     [''https://host/odata/Students?$filter=Id eq 1 or Id eq 2'',
      ''https://host/odata/Students?$filter=Id eq 3 or Id eq 4'',
      ''https://host/odata/Students?$filter=Id eq 5'']"

text \<open>
  The world a first call for these batches leaves when caching is in effect: the three
  requests sent, the three bodies in the cache.
\<close>

definition batches_cached :: world where
  "batches_cached =
     \<lparr>cache = [batch_uris ! 0 \<mapsto> (JObj [(''value'', JList [student 1, student 2])], 48),
               batch_uris ! 1 \<mapsto> (JObj [(''value'', JList [student 3, student 4])], 48),
               batch_uris ! 2 \<mapsto> (JObj [(''value'', JList [student 5])], 48)],
      sent = map HttpGet batch_uris, slept = [], logged = []\<rparr>"

text \<open>
  A service that answers from a script and times out once the script is used up; a
  listing response; the world after the first page of two records was fetched.
\<close>

definition scripted :: "http_outcome list \<Rightarrow> server" where
  "scripted outcomes n req = (if n < length outcomes then outcomes ! n else TimedOut)"

definition listing :: "json list \<Rightarrow> int \<Rightarrow> json" where
  "listing records n = JObj [(''value'', JList records), (''@odata.count'', JInt n)]"

definition after_first_page :: world where
  "after_first_page = fresh_world\<lparr>sent := [HttpGet (page_uri students_uri ''?'' 2 0)]\<rparr>"

definition after_second_page :: world where
  "after_second_page = fresh_world\<lparr>sent :=
     [HttpGet (page_uri students_uri ''?'' 2 0), HttpGet (page_uri students_uri ''?'' 2 2)]\<rparr>"

definition exact_server :: server where
  "exact_server = scripted [Response 200 (Some (listing [student 1, student 2] 3)),
                            Response 200 (Some (listing [student 3] 3))]"

definition growing_server :: server where
  "growing_server = scripted [Response 200 (Some (listing [student 1, student 2] 3)),
                              Response 200 (Some (listing [student 3, student 4] 3))]"

definition empty_object_server :: server where
  "empty_object_server = scripted [Response 200 (Some (JObj []))]"

definition failing_server :: server where
  "failing_server = scripted [Response 200 (Some (listing [student 1, student 2] 3))]"

section \<open>Properties of the request engine\<close>

lemma get_retry_Suc:
  "get_retry srv c uri uc (Suc n) w =
     (case send srv (HttpGet (strip_slash uri)) w of
        (Inr body, w1) \<Rightarrow>
          (Inr body, if uc then store w1 uri body (query_cache_timeout_hours c) else w1)
      | (Inl f, w1) \<Rightarrow> get_retry srv c uri uc n (sleep SLEEP_TIME (log_line InfoGetRetry w1)))"
  by (subst get_retry.simps) (simp split: prod.splits sum.splits)

lemma get_retry_0:
  "get_retry srv c uri uc 0 w =
     (case send srv (HttpGet (strip_slash uri)) w of
        (Inr body, w1) \<Rightarrow>
          (Inr body, if uc then store w1 uri body (query_cache_timeout_hours c) else w1)
      | (Inl f, w1) \<Rightarrow> get_give_up c uri f w1)"
  by (subst get_retry.simps) (simp split: prod.splits sum.splits)

lemma post_retry_Suc:
  "post_retry srv c uri command payload headers (Suc n) w =
     (case send srv (HttpPost (strip_slash uri @ ''/'' @ command) headers payload) w of
        (Inr body, w1) \<Rightarrow> (Inr body, w1)
      | (Inl f, w1) \<Rightarrow> post_retry srv c uri command payload headers n
                        (sleep SLEEP_TIME (log_line InfoPostRetry w1)))"
  by (subst post_retry.simps) (simp split: prod.splits sum.splits)

lemma post_retry_0:
  "post_retry srv c uri command payload headers 0 w =
     (case send srv (HttpPost (strip_slash uri @ ''/'' @ command) headers payload) w of
        (Inr body, w1) \<Rightarrow> (Inr body, w1)
      | (Inl f, w1) \<Rightarrow> post_give_up c (uri @ ''/'' @ command) payload f w1)"
  by (subst post_retry.simps) (simp split: prod.splits sum.splits)

lemma get_cache_hit:
  "use_cache_in_effect c use_cache \<Longrightarrow> retrieve w uri = Some v \<Longrightarrow> truthy v \<Longrightarrow>
     get srv c uri use_cache w = (Inr v, w)"
  by (simp add: get_def)

lemma get_give_up_effect:
  "get_give_up c uri f w = (r, w1) \<Longrightarrow>
     sent w1 = sent w \<and> cache w1 = cache w \<and> slept w1 = slept w
     \<and> (r = Inr JNull \<or> r = Inl OtherException)"
  by (cases "(c, uri, f, w)" rule: get_give_up.cases) (auto simp: log_line_def Let_def)

lemma get_retry_success:
  "get_retry srv c uri uc n w = (Inr body, w1) \<Longrightarrow> uc \<Longrightarrow> body \<noteq> JNull \<Longrightarrow>
     retrieve w1 uri = Some body"
proof (induction n arbitrary: w)
  case 0
  then show ?case
    by (auto simp: get_retry_0 send_def store_def retrieve_def split: sum.splits
        dest: get_give_up_effect)
next
  case (Suc n)
  then show ?case
    by (auto simp: get_retry_Suc send_def store_def retrieve_def split: sum.splits)
qed

lemma get_retry_sent:
  "get_retry srv c uri uc n w = (r, w1) \<Longrightarrow>
     \<exists>k. 1 \<le> k \<and> k \<le> Suc n \<and> sent w1 = sent w @ replicate k (HttpGet (strip_slash uri))"
proof (induction n arbitrary: w)
  case 0
  show ?case
  proof (cases "attempt_result (srv (length (sent w)) (HttpGet (strip_slash uri)))")
    case (Inr body)
    with 0 show ?thesis
      by (intro exI[of _ 1]) (auto simp: get_retry_0 send_def store_def split: if_splits)
  next
    case (Inl f)
    with 0 show ?thesis
      by (intro exI[of _ 1]) (auto simp: get_retry_0 send_def dest: get_give_up_effect)
  qed
next
  case (Suc n)
  show ?case
  proof (cases "attempt_result (srv (length (sent w)) (HttpGet (strip_slash uri)))")
    case (Inr body)
    with Suc.prems show ?thesis
      by (intro exI[of _ 1]) (auto simp: get_retry_Suc send_def store_def split: if_splits)
  next
    case (Inl f)
    with Suc.prems obtain k where "1 \<le> k" "k \<le> Suc n"
      "sent w1 = sent (sleep SLEEP_TIME (log_line InfoGetRetry (w\<lparr>sent := sent w @ [HttpGet (strip_slash uri)]\<rparr>))) @ replicate k (HttpGet (strip_slash uri))"
      using Suc.IH by (fastforce simp: get_retry_Suc send_def)
    then show ?thesis
      by (intro exI[of _ "Suc k"]) (simp add: sleep_def log_line_def replicate_app_Cons_same)
  qed
qed

lemma get_sent:
  assumes "get srv c uri use_cache w = (r, w1)"
  shows "\<exists>k \<le> 1 + RETRIES. sent w1 = sent w @ replicate k (HttpGet (strip_slash uri))
           \<and> (\<not> use_cache_in_effect c use_cache \<longrightarrow> 1 \<le> k)"
proof (cases "use_cache_in_effect c use_cache \<and> (\<exists>v. retrieve w uri = Some v \<and> truthy v)")
  case True
  with assms have "w1 = w"
    by (auto simp: get_def)
  with True show ?thesis
    by (intro exI[of _ 0]) simp
next
  case False
  with assms have "get_retry srv c uri (use_cache_in_effect c use_cache) RETRIES w = (r, w1)"
    by (auto simp: get_def Let_def split: option.splits if_splits)
  from get_retry_sent[OF this] show ?thesis
    by auto
qed

lemmas engine_defs = get_def use_cache_in_effect_def retrieve_def store_def send_def
  log_line_def sleep_def RETRIES_def SLEEP_TIME_def get_retry_Suc get_retry_0 strip_slash_def
  post_def post_retry_Suc post_retry_0

text \<open>
  The truth table of the caching decision: the per-call argument can switch caching on,
  never off.
\<close>

lemma use_cache_in_effect_iff:
  "use_cache_in_effect c use_cache = (cache_query_requests c \<or> use_cache = Some True)"
  by (auto simp: use_cache_in_effect_def)

text \<open>
  C1. The claim: a per-call \<open>use_cache\<close> of false disables caching for that call even when
  the instance flag \<open>cache_query_requests\<close> is set. The comment above the assignment says
  the same. The expression does otherwise: with the instance flag set, the call stores
  the body it fetched under the URI, and a later call with \<open>use_cache\<close> false is answered
  from the cache without a request, here by a service that only times out.
\<close>

theorem get_false_override_still_caches:
  "use_cache_in_effect caching_client (Some False)
   \<and> get always_ok caching_client students_uri (Some False) fresh_world
       = (Inr students_body,
          store (fresh_world\<lparr>sent := [HttpGet students_uri]\<rparr>) students_uri students_body 48)
   \<and> get always_timeout caching_client students_uri (Some False)
         (store fresh_world students_uri students_body 48)
       = (Inr students_body, store fresh_world students_uri students_body 48)"
  by (simp add: engine_defs caching_client_def fresh_world_def students_uri_def
      students_body_def always_ok_def always_timeout_def)

text \<open>
  C6. The claim: after the retries, a \<open>get\<close> that ends in HTTP 403 logs the permission
  hint naming the principal and returns \<open>None\<close>, and a \<open>post\<close> that ends in HTTP 403
  raises RuntimeError after logging. When the 403 response has a body that is not JSON,
  \<open>post\<close> leaves with the decode error of the unguarded \<open>res.json()\<close> in its log line:
  no RuntimeError, and the permission hint is never logged. \<open>get\<close> on the same service
  behaves as claimed.
\<close>

theorem post_forbidden_undecodable_body:
  "fst (post forbidden_page plain_client ''https://host/api'' ''run'' None None fresh_world)
     = Inl JSONDecodeError
   \<and> ErrorUnauthorized (principal plain_client)
       \<notin> set (logged (snd (post forbidden_page plain_client ''https://host/api'' ''run'' None None fresh_world)))
   \<and> fst (get forbidden_page plain_client ''https://host/api'' None fresh_world) = Inr JNull
   \<and> last (logged (snd (get forbidden_page plain_client ''https://host/api'' None fresh_world)))
       = ErrorUnauthorized (principal plain_client)"
  by (simp add: engine_defs plain_client_def fresh_world_def forbidden_page_def)

text \<open>
  The two halves of C6 where they hold: \<open>get\<close> without caching on a service answering
  403 twice, and \<open>post\<close> when the last 403 response carries a JSON body.
\<close>

lemma get_forbidden_returns_none:
  assumes "\<not> use_cache_in_effect c use_cache"
    and "srv (length (sent w)) (HttpGet (strip_slash uri)) = Response 403 b1"
    and "srv (Suc (length (sent w))) (HttpGet (strip_slash uri)) = Response 403 b2"
  shows "fst (get srv c uri use_cache w) = Inr JNull
    \<and> last (logged (snd (get srv c uri use_cache w))) = ErrorUnauthorized (principal c)"
  using assms by (simp add: engine_defs)

lemma post_forbidden_raises_when_body_decodes:
  assumes "srv (length (sent w)) (HttpPost (strip_slash uri @ ''/'' @ command) headers payload) = Response 403 b1"
    and "srv (Suc (length (sent w))) (HttpPost (strip_slash uri @ ''/'' @ command) headers payload) = Response 403 (Some b2)"
  shows "fst (post srv c uri command payload headers w) = Inl (RuntimeError ''Access was denied'')
    \<and> last (logged (snd (post srv c uri command payload headers w))) = ErrorUnauthorized (principal c)"
  using assms by (simp add: engine_defs)

text \<open>
  C9 as stated fails: with caching in effect, a first call whose first attempt times out
  and whose retry succeeds has already sent two requests; the second call is answered
  from the cache.
\<close>

theorem get_twice_two_requests:
  "use_cache_in_effect caching_client None
   \<and> (case get flaky_server caching_client students_uri None fresh_world of
        (r1, w1) \<Rightarrow>
          (case get flaky_server caching_client students_uri None w1 of
             (r2, w2) \<Rightarrow>
               r1 = Inr students_body \<and> r2 = Inr students_body
               \<and> cache w2 = cache w1
               \<and> sent w2 = [HttpGet students_uri, HttpGet students_uri]
               \<and> \<not> length (sent w2) - length (sent fresh_world) \<le> 1))"
  by (simp add: engine_defs caching_client_def fresh_world_def students_uri_def
      students_body_def flaky_server_def)

text \<open>
  C9, amended. With caching in effect for both calls, if the first \<open>get\<close> returns a
  truthy body, that body is in the cache under the exact URI, the second \<open>get\<close> (whatever
  the service would answer) returns it and leaves the world as it is: no request, no
  sleep, no log line. The first call sent at most \<open>1 + RETRIES\<close> requests, all for the
  stripped URI.
\<close>

theorem get_twice_cached:
  assumes "use_cache_in_effect c use_cache" and "use_cache_in_effect c use_cache'"
    and "get srv c uri use_cache w = (Inr body, w1)" and "truthy body"
  shows "retrieve w1 uri = Some body
    \<and> get srv' c uri use_cache' w1 = (Inr body, w1)
    \<and> (\<exists>k \<le> 1 + RETRIES. sent w1 = sent w @ replicate k (HttpGet (strip_slash uri)))"
proof -
  have hit: "retrieve w1 uri = Some body
      \<and> (\<exists>k \<le> 1 + RETRIES. sent w1 = sent w @ replicate k (HttpGet (strip_slash uri)))"
  proof (cases "\<exists>v. retrieve w uri = Some v \<and> truthy v")
    case True
    then obtain v where v: "retrieve w uri = Some v" "truthy v" by blast
    with assms(1,3) have "w1 = w" "body = v"
      by (simp_all add: get_cache_hit)
    with v show ?thesis by (intro conjI exI[of _ 0]) simp_all
  next
    case False
    with assms(3) have run: "get_retry srv c uri True RETRIES w = (Inr body, w1)"
      using assms(1) by (auto simp: get_def split: option.splits if_splits)
    from get_retry_sent[OF run] obtain k where
      "k \<le> Suc RETRIES" "sent w1 = sent w @ replicate k (HttpGet (strip_slash uri))"
      by blast
    moreover from assms(4) have "body \<noteq> JNull" by auto
    ultimately show ?thesis
      using get_retry_success[OF run] by auto
  qed
  with assms(2,4) show ?thesis
    by (simp add: get_cache_hit)
qed

theorem get_twice_cached_witness:
  "use_cache_in_effect caching_client None
   \<and> get always_ok caching_client students_uri None fresh_world
       = (Inr students_body,
          store (fresh_world\<lparr>sent := [HttpGet students_uri]\<rparr>) students_uri students_body 48)
   \<and> truthy students_body
   \<and> get always_timeout caching_client students_uri None
         (store (fresh_world\<lparr>sent := [HttpGet students_uri]\<rparr>) students_uri students_body 48)
       = (Inr students_body,
          store (fresh_world\<lparr>sent := [HttpGet students_uri]\<rparr>) students_uri students_body 48)"
proof -
  have a: "use_cache_in_effect caching_client None"
    by (simp add: use_cache_in_effect_def caching_client_def)
  have b: "get always_ok caching_client students_uri None fresh_world
       = (Inr students_body,
          store (fresh_world\<lparr>sent := [HttpGet students_uri]\<rparr>) students_uri students_body 48)"
    by (simp add: engine_defs caching_client_def fresh_world_def students_uri_def
      students_body_def always_ok_def)
  have c: "truthy students_body"
    by (simp add: students_body_def)
  from get_twice_cached[OF a a b c, of always_timeout] a b c show ?thesis
    by simp
qed

section \<open>Properties of query parsing\<close>

lemma dict_set_keys: "fst ` set (dict_set d k v) = insert k (fst ` set d)"
proof (induction d)
  case Nil
  show ?case by simp
next
  case (Cons a d)
  obtain k' v' where a: "a = (k', v')" by (cases a)
  show ?case
  proof (cases "k' = k")
    case True
    with a show ?thesis by simp
  next
    case False
    with a Cons show ?thesis by (simp add: insert_commute)
  qed
qed

lemma dict_has_dict_set: "dict_has (dict_set d k v) k' = (k' = k \<or> dict_has d k')"
  by (auto simp: dict_has_def dict_set_keys)

lemma parse_params_keeps:
  "parse_params params d = Inr q \<Longrightarrow> dict_has d k \<Longrightarrow> dict_has q k"
proof (induction params arbitrary: d)
  case Nil
  then show ?case by simp
next
  case (Cons p params)
  then show ?case
    by (auto simp: dict_has_dict_set split: if_splits list.splits)
qed

lemma split_first_pair:
  "split_first sep s = [k, v] \<Longrightarrow> k = takeWhile (\<lambda>ch. ch \<noteq> sep) s"
  by (auto simp: split_first_def split: if_splits)

lemma parse_params_has:
  "parse_params params d = Inr q \<Longrightarrow> p \<in> set params \<Longrightarrow> p \<noteq> [] \<Longrightarrow> dict_has q (param_name p)"
proof (induction params arbitrary: d)
  case Nil
  then show ?case by simp
next
  case (Cons a params)
  show ?case
  proof (cases "p = a")
    case True
    with Cons.prems obtain k v where kv: "split_first CHR ''='' a = [k, v]"
      and rest: "parse_params params (dict_set d k v) = Inr q"
      by (auto split: list.splits)
    from kv True have "k = param_name p"
      by (simp add: param_name_def split_first_pair)
    with rest show ?thesis
      using parse_params_keeps[OF rest, of k] by (simp add: dict_has_dict_set)
  next
    case False
    with Cons show ?thesis
      by (auto split: if_splits list.splits)
  qed
qed

lemma parse_params_error:
  "parse_params params d = Inl e \<Longrightarrow> \<exists>msg. e = ValueError msg"
  by (induction params arbitrary: d) (auto split: if_splits list.splits)

text \<open>
  C7. When the query string of the URL has a parameter named \<open>$top\<close>, \<open>$skip\<close> or
  \<open>$count\<close>, \<open>get_paged\<close> raises ValueError at once: nothing is sent, nothing is
  retried (no sleep), the cache is untouched.
\<close>

theorem get_paged_rejects_paging_parameters:
  assumes "query_has_param (query (urlparse url)) ''$top''
         \<or> query_has_param (query (urlparse url)) ''$skip''
         \<or> query_has_param (query (urlparse url)) ''$count''"
  shows "\<exists>msg w'. get_paged srv urlparse c url page_size use_cache w = Some (Inl (ValueError msg), w')
           \<and> sent w' = sent w \<and> slept w' = slept w \<and> cache w' = cache w"
proof -
  from assms obtain p name where p: "p \<in> set (split_on CHR ''&'' (query (urlparse url)))"
    and name: "param_name p = name" "name = ''$top'' \<or> name = ''$skip'' \<or> name = ''$count''"
    by (auto simp: query_has_param_def)
  from name have ne: "p \<noteq> []"
    by (auto simp: param_name_def)
  show ?thesis
  proof (cases "parse_query (urlparse url)")
    case (Inl e)
    then have "parse_params (split_on CHR ''&'' (query (urlparse url))) [] = Inl e"
      by (simp add: parse_query_def)
    from parse_params_error[OF this] obtain msg where "e = ValueError msg" ..
    with Inl show ?thesis
      by (simp add: get_paged_def)
  next
    case (Inr q)
    then have "dict_has q name"
      using parse_params_has[OF _ p ne] name(1) by (simp add: parse_query_def)
    with Inr name(2) show ?thesis
      by (auto simp: get_paged_def log_line_def)
  qed
qed

theorem get_paged_rejects_paging_parameters_witness:
  "query_has_param (query (example_urlparse ''https://host/odata/Students?$select=Id&$top=5'')) ''$top''
   \<and> (\<exists>msg w'. get_paged always_ok example_urlparse plain_client
          ''https://host/odata/Students?$select=Id&$top=5'' 100 None fresh_world
            = Some (Inl (ValueError msg), w')
          \<and> sent w' = sent fresh_world \<and> slept w' = slept fresh_world \<and> cache w' = cache fresh_world)"
proof -
  have h: "query_has_param (query (example_urlparse ''https://host/odata/Students?$select=Id&$top=5'')) ''$top''"
    by (simp add: query_has_param_def example_urlparse_def param_name_def)
  from get_paged_rejects_paging_parameters[of example_urlparse, OF disjI1, OF h] h
  show ?thesis by blast
qed

section \<open>Properties of the chunk filter\<close>

lemma dict_set_first:
  "k \<notin> fst ` set before \<Longrightarrow> dict_set (before @ (k, a) # behind) k v = before @ (k, v) # behind"
  by (induction before) auto

lemma dict_set_new: "\<not> dict_has d k \<Longrightarrow> dict_set d k v = d @ [(k, v)]"
  by (induction d) (auto simp: dict_has_def)

lemma map_of_first:
  "k \<notin> fst ` set before \<Longrightarrow> map_of (before @ (k, a) # behind) k = Some a"
  by (induction before) auto

lemma map_of_absent: "\<not> dict_has d k \<Longrightarrow> map_of d k = None"
  by (simp add: dict_has_def map_of_eq_None_iff)

lemma dict_set_distinct:
  "distinct (map fst d) \<Longrightarrow> distinct (map fst (dict_set d k v))"
proof (induction d)
  case Nil
  show ?case by simp
next
  case (Cons a d)
  obtain k' v' where a: "a = (k', v')" by (cases a)
  from Cons a have "k' \<notin> fst ` set d" "distinct (map fst (dict_set d k v))"
    by simp_all
  with a Cons.prems show ?case
    by (auto simp: dict_set_keys)
qed

lemma parse_params_distinct:
  "parse_params params d = Inr q \<Longrightarrow> distinct (map fst d) \<Longrightarrow> distinct (map fst q)"
  by (induction params arbitrary: d) (auto simp: dict_set_distinct split: if_splits list.splits)

lemma parse_query_distinct: "parse_query url = Inr q \<Longrightarrow> distinct (map fst q)"
  using parse_params_distinct[of _ "[]"] by (simp add: parse_query_def)

lemma build_query_rest:
  "build_query d acc False = acc @ concat (map (\<lambda>(k, v). ''&'' @ k @ ''='' @ v) d)"
  by (induction d arbitrary: acc) auto

lemma join_amp:
  "join ''&'' (p # ps) = p @ concat (map (\<lambda>x. ''&'' @ x) ps)"
  by (induction ps arbitrary: p) auto

lemma build_query_string: "build_query d [] True = query_string d"
proof (cases d)
  case Nil
  then show ?thesis by (simp add: query_string_def)
next
  case (Cons a d')
  obtain k v where a: "a = (k, v)" by (cases a)
  have "concat (map (\<lambda>(k, v). ''&'' @ k @ ''='' @ v) d')
      = concat (map (\<lambda>x. ''&'' @ x) (map (\<lambda>(k, v). k @ ''='' @ v) d'))"
    by (induction d') auto
  with Cons a show ?thesis
    by (simp add: query_string_def build_query_rest join_amp del: join.simps)
qed

lemma str_nat_digit: "n < 10 \<Longrightarrow> str_nat n = [''0123456789'' ! n]"
  by (subst str_nat.simps) simp

lemma str_nat_more:
  "10 \<le> n \<Longrightarrow> str_nat n = str_nat (n div 10) @ [''0123456789'' ! (n mod 10)]"
  by (subst str_nat.simps) simp

lemma split_on_none: "sep \<notin> set p \<Longrightarrow> split_on sep p = [p]"
  by (induction p) auto

lemma split_on_append:
  "sep \<notin> set p \<Longrightarrow> split_on sep (p @ sep # rest) = p # split_on sep rest"
  by (induction p) auto

lemma split_on_join:
  "ps \<noteq> [] \<Longrightarrow> \<forall>p \<in> set ps. sep \<notin> set p \<Longrightarrow> split_on sep (join [sep] ps) = ps"
proof (induction ps)
  case Nil
  then show ?case by simp
next
  case (Cons p ps)
  show ?case
  proof (cases ps)
    case Nil
    with Cons.prems show ?thesis by (simp add: split_on_none)
  next
    case (Cons q qs)
    with Cons.IH Cons.prems show ?thesis
      by (simp add: split_on_append del: split_on.simps)
  qed
qed

lemma split_at_first:
  "sep \<notin> set k \<Longrightarrow>
   takeWhile (\<lambda>ch. ch \<noteq> sep) (k @ sep # v) = k \<and> dropWhile (\<lambda>ch. ch \<noteq> sep) (k @ sep # v) = sep # v"
  by (induction k) auto

lemma split_first_pair_of:
  "CHR ''='' \<notin> set k \<Longrightarrow> split_first CHR ''='' (k @ CHR ''='' # v) = [k, v]"
  by (simp add: split_first_def split_at_first)

lemma parse_params_pairs:
  "distinct (map fst (d @ params)) \<Longrightarrow> list_all (\<lambda>(k, v). CHR ''='' \<notin> set k) params \<Longrightarrow>
   parse_params (map (\<lambda>(k, v). k @ ''='' @ v) params) d = Inr (d @ params)"
proof (induction params arbitrary: d)
  case Nil
  then show ?case by simp
next
  case (Cons a params)
  obtain k v where a: "a = (k, v)" by (cases a)
  from Cons.prems a have k: "CHR ''='' \<notin> set k" and nk: "\<not> dict_has d k"
    by (auto simp: dict_has_def)
  from Cons.prems a have "distinct (map fst ((d @ [(k, v)]) @ params))"
    and "list_all (\<lambda>(k, v). CHR ''='' \<notin> set k) params"
    by auto
  from Cons.IH[OF this] a k nk show ?case
    by (simp add: split_first_pair_of dict_set_new)
qed

lemma parse_query_query_string:
  assumes "params_ok params" and "query parsed_url = query_string params"
  shows "parse_query parsed_url = Inr params"
proof (cases params)
  case Nil
  with assms(2) show ?thesis
    by (simp add: parse_query_def query_string_def)
next
  case (Cons a rest)
  let ?ps = "map (\<lambda>(k, v). k @ ''='' @ v) params"
  from assms(1) have "\<forall>p \<in> set ?ps. CHR ''&'' \<notin> set p"
    by (auto simp: params_ok_def list_all_iff)
  moreover from Cons have "?ps \<noteq> []" by simp
  ultimately have "split_on CHR ''&'' (join [CHR ''&''] ?ps) = ?ps"
    by (rule split_on_join[rotated])
  moreover from assms(1) have "parse_params ?ps [] = Inr ([] @ params)"
    by (intro parse_params_pairs) (auto simp: params_ok_def list_all_iff)
  ultimately show ?thesis
    using assms(2) by (simp add: parse_query_def query_string_def)
qed

lemma map_without_key:
  "k \<notin> fst ` set d \<Longrightarrow> map (\<lambda>(k', v'). if k' = k then (k', f v') else (k', v')) d = d"
  by (induction d) auto

lemma dict_set_replace:
  "distinct (map fst d) \<Longrightarrow> map_of d k = Some a \<Longrightarrow>
   dict_set d k (f a) = map (\<lambda>(k', v'). if k' = k then (k', f v') else (k', v')) d"
proof (induction d)
  case Nil
  then show ?case by simp
next
  case (Cons x d)
  obtain k' v' where x: "x = (k', v')" by (cases x)
  show ?case
  proof (cases "k' = k")
    case True
    with Cons.prems x have "a = v'" and "k \<notin> fst ` set d"
      by auto
    with True x show ?thesis
      by (simp add: map_without_key)
  next
    case False
    with Cons x show ?thesis by simp
  qed
qed

text \<open>
  The URI of a batch, as the source builds it from the parsed dictionary, is the base URL
  followed by the merged parameters written out in order.
\<close>

lemma chunk_uri_merged:
  assumes "parse_query parsed_url = Inr params"
  shows "chunk_uri parsed_url params flt list_chunk
    = base_url parsed_url
      @ query_string (merged_params params (join '' or '' (chunk_filters flt list_chunk)))"
proof (cases "map_of params ''$filter''")
  case None
  then have "\<not> dict_has params ''$filter''"
    by (simp add: dict_has_def map_of_eq_None_iff)
  with None show ?thesis
    by (simp add: chunk_uri_def query_copy_def merged_params_def dict_set_new build_query_string
        dict_has_def)
next
  case (Some A)
  then have "''$filter'' \<in> fst ` set params"
    by (metis map_of_eq_None_iff option.distinct(1))
  with Some dict_set_replace[OF parse_query_distinct[OF assms] Some,
      of "\<lambda>v. ''('' @ v @ '') and ('' @ join '' or '' (chunk_filters flt list_chunk) @ '')''"]
  show ?thesis
    by (simp add: chunk_uri_def query_copy_def merged_params_def build_query_string)
qed

section \<open>Properties of chunked retrieval\<close>

lemma delivers_body:
  "delivers r records \<Longrightarrow> \<exists>body. r = Inr body \<and> py_getitem body ''value'' = Inr (JList records)"
  by (cases "(r, records)" rule: delivers.cases) auto

lemma getitem_truthy: "py_getitem body k = Inr v \<Longrightarrow> truthy body"
  by (cases body) (auto split: option.splits)

lemma chunked_loop_each:
  "get_each srv c None (map (chunk_uri parsed_url q flt) chunks) w = (rs, w') \<Longrightarrow>
   list_all2 delivers rs pages \<Longrightarrow>
   chunked_loop srv c parsed_url q flt chunks acc w = (Inr (Some (acc @ concat pages)), w')"
proof (induction chunks arbitrary: acc w rs pages w')
  case Nil
  then show ?case by simp
next
  case (Cons ch chunks)
  obtain r w1 where g: "get srv c (chunk_uri parsed_url q flt ch) None w = (r, w1)"
    by (cases "get srv c (chunk_uri parsed_url q flt ch) None w")
  obtain rs' w2 where e: "get_each srv c None (map (chunk_uri parsed_url q flt) chunks) w1 = (rs', w2)"
    by (cases "get_each srv c None (map (chunk_uri parsed_url q flt) chunks) w1")
  from Cons.prems(1) g e have rs: "rs = r # rs'" and w': "w' = w2"
    by simp_all
  from Cons.prems(2) rs obtain page pages' where pages: "pages = page # pages'"
    and d: "delivers r page" and rest: "list_all2 delivers rs' pages'"
    by (auto simp: list_all2_Cons1)
  from delivers_body[OF d] obtain body where body: "r = Inr body"
    "py_getitem body ''value'' = Inr (JList page)"
    by blast
  from Cons.IH[OF e rest, of "acc @ page"] body g getitem_truthy[OF body(2)] pages w'
  show ?case
    by simp
qed

lemma concat_slices:
  "concat (map (\<lambda>i. take n (drop (i * n) xs)) [0 ..< k]) = take (k * n) xs"
proof (induction k)
  case 0
  show ?case by simp
next
  case (Suc k)
  have "take (k * n + n) xs = take (k * n) xs @ take n (drop (k * n) xs)"
    by (simp add: take_add)
  with Suc show ?case
    by (simp add: add.commute)
qed

lemma ceil_div_covers: "0 < n \<Longrightarrow> (len::nat) \<le> (len + n - 1) div n * n"
proof -
  assume n: "0 < n"
  have "(len + n - 1) div n * n = (len + n - 1) - (len + n - 1) mod n"
    by (simp add: minus_mod_eq_div_mult)
  moreover have "(len + n - 1) mod n < n"
    using n by (rule mod_less_divisor)
  ultimately show ?thesis
    using n by linarith
qed

lemma ceil_div_slice_starts:
  assumes "0 < n" and "i < (len + n - 1) div n"
  shows "i * n < (len::nat)"
proof -
  from assms(2) have "Suc i \<le> (len + n - 1) div n" by simp
  then have "Suc i * n \<le> (len + n - 1) div n * n"
    by (rule mult_le_mono1)
  also have "\<dots> \<le> len + n - 1"
    by simp
  finally show ?thesis
    using assms(1) by simp
qed

lemma chunk_facts:
  assumes "chunk other xs sz = Inr chunks"
    and "0 < sz" and "sz < 2 ^ 53" and "length xs < 2 ^ 53"
  shows "length chunks = (length xs + nat sz - 1) div nat sz"
    and "concat chunks = xs"
    and "\<forall>ch \<in> set chunks. ch \<noteq> [] \<and> length ch \<le> nat sz"
proof -
  let ?n = "nat sz"
  let ?k = "(length xs + ?n - 1) div ?n"
  from assms have n: "0 < ?n" by simp
  from assms have chunks: "chunks = map (\<lambda>i. take ?n (drop (i * ?n) xs)) [0 ..< ?k]"
    by (simp add: chunk_def)
  show "length chunks = ?k"
    by (simp add: chunks)
  show "concat chunks = xs"
    unfolding chunks concat_slices using ceil_div_covers[OF n] by simp
  show "\<forall>ch \<in> set chunks. ch \<noteq> [] \<and> length ch \<le> nat sz"
  proof
    fix ch assume "ch \<in> set chunks"
    then obtain i where i: "i < ?k" and ch: "ch = take ?n (drop (i * ?n) xs)"
      by (auto simp: chunks)
    from ceil_div_slice_starts[OF n i] n ch show "ch \<noteq> [] \<and> length ch \<le> nat sz"
      by auto
  qed
qed

lemma chunked_loop_append:
  "chunked_loop srv c parsed_url q flt earlier acc w = (Inr (Some acc'), w1) \<Longrightarrow>
   chunked_loop srv c parsed_url q flt (earlier @ later) acc w
     = chunked_loop srv c parsed_url q flt later acc' w1"
proof (induction earlier arbitrary: acc w)
  case Nil
  then show ?case by simp
next
  case (Cons ch earlier)
  then show ?case
    by (auto split: prod.splits sum.splits if_splits)
qed

lemma chunked_loop_falsy:
  "get srv c (chunk_uri parsed_url q flt list_chunk) None w = (Inr body, w1) \<Longrightarrow>
   \<not> truthy body \<Longrightarrow>
   chunked_loop srv c parsed_url q flt (list_chunk # later) acc w = (Inr None, w1)"
  by simp

text \<open>
  At the level of the session: without caching, when the service answers every request at
  its first attempt, one \<open>get\<close> per URI sends exactly one request per URI, in order.
\<close>

lemma get_first_attempt:
  assumes "\<not> use_cache_in_effect c use_cache"
    and "attempt_result (srv (length (sent w)) (HttpGet (strip_slash uri))) = Inr body"
  shows "get srv c uri use_cache w
    = (Inr body, w\<lparr>sent := sent w @ [HttpGet (strip_slash uri)]\<rparr>)"
  using assms by (simp add: get_def RETRIES_def get_retry_Suc send_def)

lemma get_each_first_attempt:
  assumes "\<not> use_cache_in_effect c use_cache"
    and "length bodies = length uris"
    and "\<forall>i < length uris.
           attempt_result (srv (length (sent w) + i) (HttpGet (strip_slash (uris ! i))))
             = Inr (bodies ! i)"
  shows "get_each srv c use_cache uris w
    = (map Inr bodies, w\<lparr>sent := sent w @ map (\<lambda>u. HttpGet (strip_slash u)) uris\<rparr>)"
  using assms(2,3)
proof (induction uris arbitrary: bodies w)
  case Nil
  then show ?case by simp
next
  case (Cons u uris)
  then obtain b bs where bodies: "bodies = b # bs" and len: "length bs = length uris"
    by (cases bodies) auto
  let ?w1 = "w\<lparr>sent := sent w @ [HttpGet (strip_slash u)]\<rparr>"
  from Cons.prems(2) bodies
  have "attempt_result (srv (length (sent w)) (HttpGet (strip_slash u))) = Inr b"
    by fastforce
  from get_first_attempt[of c use_cache srv w u b, OF assms(1) this]
  have g: "get srv c u use_cache w = (Inr b, ?w1)" .
  have "\<forall>i < length uris.
      attempt_result (srv (length (sent ?w1) + i) (HttpGet (strip_slash (uris ! i))))
        = Inr (bs ! i)"
  proof (intro allI impI)
    fix i assume "i < length uris"
    with Cons.prems(2)[rule_format, of "Suc i"] bodies
    show "attempt_result (srv (length (sent ?w1) + i) (HttpGet (strip_slash (uris ! i))))
        = Inr (bs ! i)"
      by simp
  qed
  from Cons.IH[OF len this] g bodies show ?case
    by simp
qed

text \<open>
  When the \<open>get\<close> for every batch delivers a list of records, \<open>get_chunked\<close> does what
  one \<open>get\<close> per batch URI does, in batch order, and returns the lists concatenated.
\<close>

lemma get_chunked_each:
  assumes "parse_query (urlparse url) = Inr q"
    and "chunk other to_chunk_list chunk_size = Inr chunks"
    and "get_each srv c None (map (chunk_uri (urlparse url) q flt) chunks) w = (rs, w')"
    and "list_all2 delivers rs pages"
  shows "get_chunked srv urlparse other c url flt to_chunk_list chunk_size w
           = (Inr (Some (concat pages)), w')"
  using assms(1,2) chunked_loop_each[OF assms(3,4), of "[]"]
  by (simp add: get_chunked_def)

lemma chunk_five:
  "chunk other five_ids 2 = Inr [[PInt 1, PInt 2], [PInt 3, PInt 4], [PInt 5]]"
  by (simp add: chunk_def five_ids_def upt_conv_Cons)

lemma batch_uris_eq:
  "map (chunk_uri (example_urlparse students_uri) [] ''Id eq {}'')
     [[PInt 1, PInt 2], [PInt 3, PInt 4], [PInt 5]] = batch_uris"
  by (simp add: chunk_uri_def base_url_def example_urlparse_def students_uri_def query_copy_def
      chunk_filters_def str_int_def str_nat_digit batch_uris_def)

lemma students_parse: "parse_query (example_urlparse students_uri) = Inr []"
  by (simp add: parse_query_def example_urlparse_def students_uri_def)

lemma retrying_run:
  "get_each retrying_server plain_client None batch_uris fresh_world
     = ([Inr (JObj [(''value'', JList [student 1, student 2])]),
         Inr (JObj [(''value'', JList [student 3, student 4])]),
         Inr (JObj [(''value'', JList [student 5])])],
        \<lparr>cache = Map.empty,
         sent = [HttpGet (batch_uris ! 0), HttpGet (batch_uris ! 0), HttpGet (batch_uris ! 1),
                 HttpGet (batch_uris ! 1), HttpGet (batch_uris ! 2), HttpGet (batch_uris ! 2)],
         slept = [60, 60, 60],
         logged = [InfoGetRetry, InfoGetRetry, InfoGetRetry]\<rparr>)"
  by (simp add: engine_defs plain_client_def fresh_world_def retrying_server_def batch_uris_def)

lemma caching_first_run:
  "get_chunked batch_server example_urlparse other_sizes caching_client students_uri
     ''Id eq {}'' five_ids 2 fresh_world
   = (Inr (Some [student 1, student 2, student 3, student 4, student 5]), batches_cached)"
  by (simp add: get_chunked_def parse_query_def chunk_five chunk_uri_def base_url_def
      example_urlparse_def students_uri_def query_copy_def chunk_filters_def str_int_def
      str_nat_digit engine_defs caching_client_def fresh_world_def batch_server_def
      batches_cached_def batch_uris_def dict_has_def)

lemma caching_second_run:
  "get_chunked batch_server example_urlparse other_sizes caching_client students_uri
     ''Id eq {}'' five_ids 2 batches_cached
   = (Inr (Some [student 1, student 2, student 3, student 4, student 5]), batches_cached)"
  by (simp add: get_chunked_def parse_query_def chunk_five chunk_uri_def base_url_def
      example_urlparse_def students_uri_def query_copy_def chunk_filters_def str_int_def
      str_nat_digit engine_defs caching_client_def fresh_world_def batch_server_def
      batches_cached_def batch_uris_def dict_has_def)

text \<open>
  C4 as stated fails: the number of GET requests is not fixed by the number of batches.
  With a service whose first answer to each batch request times out, the \<open>get\<close> of each of
  the three batches succeeds at its retry and the records of all batches are returned in
  order, yet six GET requests were issued, not three. With caching in effect, a first call
  sends three requests and leaves the three bodies in the cache; a second call returns the
  same records and issues no request at all.
\<close>

theorem get_chunked_request_count_differs:
  "get_each retrying_server plain_client None batch_uris fresh_world
     = ([Inr (JObj [(''value'', JList [student 1, student 2])]),
         Inr (JObj [(''value'', JList [student 3, student 4])]),
         Inr (JObj [(''value'', JList [student 5])])],
        snd (get_chunked retrying_server example_urlparse other_sizes plain_client students_uri
               ''Id eq {}'' five_ids 2 fresh_world))
   \<and> fst (get_chunked retrying_server example_urlparse other_sizes plain_client students_uri
            ''Id eq {}'' five_ids 2 fresh_world)
       = Inr (Some [student 1, student 2, student 3, student 4, student 5])
   \<and> length (sent (snd (get_chunked retrying_server example_urlparse other_sizes plain_client
                          students_uri ''Id eq {}'' five_ids 2 fresh_world))) = 6
   \<and> (length five_ids + nat 2 - 1) div nat 2 = 3
   \<and> get_chunked batch_server example_urlparse other_sizes caching_client students_uri
         ''Id eq {}'' five_ids 2 fresh_world
       = (Inr (Some [student 1, student 2, student 3, student 4, student 5]), batches_cached)
   \<and> get_chunked batch_server example_urlparse other_sizes caching_client students_uri
         ''Id eq {}'' five_ids 2 batches_cached
       = (Inr (Some [student 1, student 2, student 3, student 4, student 5]), batches_cached)"
proof -
  have d: "list_all2 delivers
      [Inr (JObj [(''value'', JList [student 1, student 2])]),
       Inr (JObj [(''value'', JList [student 3, student 4])]),
       Inr (JObj [(''value'', JList [student 5])])]
      [[student 1, student 2], [student 3, student 4], [student 5]]"
    by simp
  from get_chunked_each[where urlparse = example_urlparse and url = students_uri
      and flt = "''Id eq {}''", OF students_parse chunk_five, unfolded batch_uris_eq,
      OF retrying_run d] retrying_run caching_first_run caching_second_run
  show ?thesis
    by (simp add: five_ids_def)
qed

text \<open>
  C4, amended. For a chunk size above zero (size and length below \<open>2 ^ 53\<close>), with
  caching not in effect, when the service answers the request of every batch at its first
  attempt with a body whose \<open>value\<close> is a list of records: \<open>get_chunked\<close> sends exactly
  one GET request per batch, for the stripped batch URIs in batch order, and returns the
  record lists concatenated in that order. The batches are the consecutive slices of the
  input, each of one to \<open>chunk_size\<close> values, and there are \<open>(N + C - 1) div C\<close> of them,
  the ceiling of \<open>N / C\<close>.
\<close>

theorem get_chunked_one_request_per_batch:
  assumes "parse_query (urlparse url) = Inr q"
    and "0 < chunk_size" and "chunk_size < 2 ^ 53" and "length to_chunk_list < 2 ^ 53"
    and "chunk other to_chunk_list chunk_size = Inr chunks"
    and "\<not> cache_query_requests c"
    and "length bodies = length chunks"
    and "\<forall>i < length chunks.
           attempt_result (srv (length (sent w) + i)
               (HttpGet (strip_slash (chunk_uri (urlparse url) q flt (chunks ! i)))))
             = Inr (bodies ! i)"
    and "list_all2 (\<lambda>body page. py_getitem body ''value'' = Inr (JList page)) bodies pages"
  shows "get_chunked srv urlparse other c url flt to_chunk_list chunk_size w
           = (Inr (Some (concat pages)),
              w\<lparr>sent := sent w
                 @ map (\<lambda>list_chunk. HttpGet (strip_slash (chunk_uri (urlparse url) q flt list_chunk)))
                     chunks\<rparr>)
    \<and> length chunks = (length to_chunk_list + nat chunk_size - 1) div nat chunk_size
    \<and> concat chunks = to_chunk_list
    \<and> (\<forall>ch \<in> set chunks. ch \<noteq> [] \<and> length ch \<le> nat chunk_size)"
proof -
  let ?uris = "map (chunk_uri (urlparse url) q flt) chunks"
  from assms(6) have nc: "\<not> use_cache_in_effect c None"
    by (simp add: use_cache_in_effect_def)
  from assms(7) have len: "length bodies = length ?uris"
    by simp
  from assms(8) have "\<forall>i < length ?uris.
      attempt_result (srv (length (sent w) + i) (HttpGet (strip_slash (?uris ! i))))
        = Inr (bodies ! i)"
    by simp
  from get_each_first_attempt[OF nc len this]
  have run: "get_each srv c None ?uris w
      = (map Inr bodies, w\<lparr>sent := sent w @ map (\<lambda>u. HttpGet (strip_slash u)) ?uris\<rparr>)" .
  from assms(9) have "list_all2 delivers (map Inr bodies) pages"
    by (simp add: list_all2_map1)
  from get_chunked_each[of urlparse url, OF assms(1,5) run this]
    chunk_facts[OF assms(5,2,3,4)]
  show ?thesis
    by (simp add: comp_def)
qed

lemma batch_run:
  "get_each batch_server plain_client None batch_uris fresh_world
     = ([Inr (JObj [(''value'', JList [student 1, student 2])]),
         Inr (JObj [(''value'', JList [student 3, student 4])]),
         Inr (JObj [(''value'', JList [student 5])])],
        fresh_world\<lparr>sent := map HttpGet batch_uris\<rparr>)"
  by (simp add: engine_defs plain_client_def fresh_world_def batch_server_def batch_uris_def)

theorem get_chunked_one_request_per_batch_witness:
  "parse_query (example_urlparse students_uri) = Inr []
   \<and> (0::int) < 2 \<and> (2::int) < 2 ^ 53 \<and> length five_ids < 2 ^ 53
   \<and> chunk other_sizes five_ids 2 = Inr [[PInt 1, PInt 2], [PInt 3, PInt 4], [PInt 5]]
   \<and> \<not> cache_query_requests plain_client
   \<and> get_chunked batch_server example_urlparse other_sizes plain_client students_uri
         ''Id eq {}'' five_ids 2 fresh_world
       = (Inr (Some [student 1, student 2, student 3, student 4, student 5]),
          fresh_world\<lparr>sent := map HttpGet batch_uris\<rparr>)
   \<and> length [[PInt 1, PInt 2], [PInt 3, PInt 4], [PInt 5]]
       = (length five_ids + nat 2 - 1) div nat 2"
proof -
  let ?chunks = "[[PInt 1, PInt 2], [PInt 3, PInt 4], [PInt 5]]"
  let ?bodies = "[JObj [(''value'', JList [student 1, student 2])],
                  JObj [(''value'', JList [student 3, student 4])],
                  JObj [(''value'', JList [student 5])]]"
  have z: "(0::int) < 2" "(2::int) < 2 ^ 53" "length five_ids < 2 ^ 53"
    by (simp_all add: five_ids_def)
  have nc: "\<not> cache_query_requests plain_client"
    by (simp add: plain_client_def)
  have len: "length ?bodies = length ?chunks"
    by simp
  have u: "chunk_uri (example_urlparse students_uri) [] ''Id eq {}'' (?chunks ! i)
      = batch_uris ! i" if "i < length ?chunks" for i
    using that batch_uris_eq[symmetric] by (simp add: nth_map[symmetric] del: list.map)
  have a: "\<forall>i < length ?chunks.
      attempt_result (batch_server (length (sent fresh_world) + i)
          (HttpGet (strip_slash (chunk_uri (example_urlparse students_uri) [] ''Id eq {}''
             (?chunks ! i)))))
        = Inr (?bodies ! i)"
    by (simp add: batch_server_def fresh_world_def less_Suc_eq numeral_3_eq_3)
  have d: "list_all2 (\<lambda>body page. py_getitem body ''value'' = Inr (JList page)) ?bodies
      [[student 1, student 2], [student 3, student 4], [student 5]]"
    by simp
  from get_chunked_one_request_per_batch[where urlparse = example_urlparse
      and url = students_uri and srv = batch_server and flt = "''Id eq {}''" and w = fresh_world,
      OF students_parse z chunk_five nc len a d] students_parse z chunk_five nc batch_uris_eq
  show ?thesis
    by (simp add: strip_slash_def batch_uris_def fresh_world_def)
qed

text \<open>
  What \<open>get_chunked\<close> sends. The loop takes the batches in order; for each batch it
  reaches, \<open>get\<close> sends the request for the batch URI between zero times (a cache hit) and
  \<open>1 + RETRIES\<close> times, and the loop stops at the first batch whose response is an error
  or falsy.
\<close>

lemma chunked_loop_step:
  assumes "chunked_loop srv c parsed_url q flt (list_chunk # rest) acc w = (r, w')"
    and "get srv c (chunk_uri parsed_url q flt list_chunk) None w = (r1, w1)"
  shows "(w' = w1 \<and> (\<forall>records. r \<noteq> Inr (Some records)))
       \<or> (\<exists>acc'. chunked_loop srv c parsed_url q flt rest acc' w1 = (r, w'))"
  using assms by (auto split: sum.splits if_splits)

lemma chunked_loop_sent:
  assumes "chunked_loop srv c parsed_url q flt chunks acc w = (r, w')"
  shows "\<exists>n ks. n \<le> length chunks \<and> length ks = n
      \<and> (chunks \<noteq> [] \<longrightarrow> 0 < n)
      \<and> ((\<exists>records. r = Inr (Some records)) \<longrightarrow> n = length chunks)
      \<and> (\<forall>k \<in> set ks. k \<le> 1 + RETRIES \<and> (\<not> cache_query_requests c \<longrightarrow> 1 \<le> k))
      \<and> sent w' = sent w @ batch_requests (chunk_uri parsed_url q flt) (zip (take n chunks) ks)"
  using assms
proof (induction chunks arbitrary: acc w)
  case Nil
  then show ?case
    by (intro exI[of _ 0] exI[of _ "[]"]) (simp add: batch_requests_def)
next
  case (Cons ch chunks)
  obtain r1 w1 where g: "get srv c (chunk_uri parsed_url q flt ch) None w = (r1, w1)"
    by (cases "get srv c (chunk_uri parsed_url q flt ch) None w")
  from get_sent[OF g] obtain k where k: "k \<le> 1 + RETRIES"
    "sent w1 = sent w @ replicate k (HttpGet (strip_slash (chunk_uri parsed_url q flt ch)))"
    "\<not> cache_query_requests c \<longrightarrow> 1 \<le> k"
    by (auto simp: use_cache_in_effect_def)
  from chunked_loop_step[OF Cons.prems g]
  consider (stop) "w' = w1" "\<forall>records. r \<noteq> Inr (Some records)"
    | (go) acc' where "chunked_loop srv c parsed_url q flt chunks acc' w1 = (r, w')"
    by blast
  then show ?case
  proof cases
    case stop
    with k show ?thesis
      by (intro exI[of _ 1] exI[of _ "[k]"]) (simp add: batch_requests_def)
  next
    case go
    from Cons.IH[OF go] obtain n ks where n: "n \<le> length chunks" "length ks = n"
      "(\<exists>records. r = Inr (Some records)) \<longrightarrow> n = length chunks"
      "\<forall>k \<in> set ks. k \<le> 1 + RETRIES \<and> (\<not> cache_query_requests c \<longrightarrow> 1 \<le> k)"
      "sent w' = sent w1 @ batch_requests (chunk_uri parsed_url q flt) (zip (take n chunks) ks)"
      by blast
    with k show ?thesis
      by (intro exI[of _ "Suc n"] exI[of _ "k # ks"]) (simp add: batch_requests_def)
  qed
qed

text \<open>
  C5 as stated fails. This URL's query string contains the parameter \<open>$filter=A\<close>, and a
  second \<open>$filter\<close> after it. The request of the batch does not use
  \<open>$filter=(A) and (D)\<close>: \<open>parse_query\<close> keeps the last value of a repeated name, so the
  request uses \<open>$filter=(B) and (D)\<close>, for \<open>D = Id eq 7 or Id eq 12\<close>.
\<close>

theorem get_chunked_repeated_filter_uses_last:
  "''$filter=A'' \<in> set (split_on CHR ''&'' (query (example_urlparse two_filters_url)))
   \<and> join '' or '' (chunk_filters ''Id eq {}'' id_chunk) = ''Id eq 7 or Id eq 12''
   \<and> get_chunked always_ok example_urlparse other_sizes plain_client two_filters_url
         ''Id eq {}'' id_chunk 20 fresh_world
       = (Inr (Some [JObj [(''Id'', JInt 1)]]),
          fresh_world\<lparr>sent := [HttpGet
             ''https://host/odata/Students?$filter=(B) and (Id eq 7 or Id eq 12)&x=1'']\<rparr>)
   \<and> HttpGet ''https://host/odata/Students?$filter=(B) and (Id eq 7 or Id eq 12)&x=1''
       \<noteq> HttpGet ''https://host/odata/Students?$filter=(A) and (Id eq 7 or Id eq 12)&x=1''"
  by (simp add: get_chunked_def parse_query_def example_urlparse_def two_filters_url_def
      chunk_def id_chunk_def upt_conv_Cons chunk_uri_def base_url_def
      query_copy_def chunk_filters_def str_int_def str_nat_digit engine_defs plain_client_def
      fresh_world_def always_ok_def students_body_def dict_has_def split_first_def str_nat_more)

text \<open>
  C5, amended. Let the query string of the input URL be the parameters \<open>params\<close> written out
  in order, with distinct names (no \<open>&\<close> in a name or a value, no \<open>=\<close> in a name), and
  let \<open>chunk\<close> split the values into \<open>chunks\<close>. Then every request \<open>get_chunked\<close> sends
  is a GET for a batch URI, for the batches in order, each batch the loop reaches between zero
  and \<open>1 + RETRIES\<close> times (at least once when caching is off); all batches are reached
  when a list of records is returned. The URI of a batch is the base URL followed by the
  merged parameters written out in order, sent with leading and trailing \<open>/\<close> stripped:
  with a \<open>$filter\<close> of value \<open>A\<close> among \<open>params\<close>, that value is replaced in place by
  \<open>(A) and (D)\<close>, where \<open>D\<close> is the per-value clauses of the batch joined by \<open> or \<close>;
  with none, \<open>$filter=D\<close> is added after all of \<open>params\<close>. Every other parameter keeps
  its value and its position.
\<close>

theorem get_chunked_requests_merged_filter:
  assumes "query (urlparse url) = query_string params"
    and "params_ok params"
    and "chunk other to_chunk_list chunk_size = Inr chunks"
    and "get_chunked srv urlparse other c url flt to_chunk_list chunk_size w = (r, w')"
  shows "\<exists>n ks. n \<le> length chunks \<and> length ks = n
      \<and> (chunks \<noteq> [] \<longrightarrow> 0 < n)
      \<and> ((\<exists>records. r = Inr (Some records)) \<longrightarrow> n = length chunks)
      \<and> (\<forall>k \<in> set ks. k \<le> 1 + RETRIES \<and> (\<not> cache_query_requests c \<longrightarrow> 1 \<le> k))
      \<and> sent w' = sent w
          @ batch_requests
              (\<lambda>list_chunk. base_url (urlparse url)
                 @ query_string
                     (merged_params params (join '' or '' (chunk_filters flt list_chunk))))
              (zip (take n chunks) ks)"
proof -
  from parse_query_query_string[OF assms(2,1)]
  have p: "parse_query (urlparse url) = Inr params" .
  from assms(4,3) p
  have "chunked_loop srv c (urlparse url) params flt chunks [] w = (r, w')"
    by (simp add: get_chunked_def)
  moreover have "chunk_uri (urlparse url) params flt
      = (\<lambda>list_chunk. base_url (urlparse url)
           @ query_string (merged_params params (join '' or '' (chunk_filters flt list_chunk))))"
    by (rule ext) (rule chunk_uri_merged[OF p])
  ultimately show ?thesis
    using chunked_loop_sent[of srv c "urlparse url" params flt chunks "[]" w r w']
    by simp
qed

theorem get_chunked_requests_merged_filter_witness:
  "query (example_urlparse filtered_url)
     = query_string [(''$select'', ''Id''), (''$filter'', ''Active eq true''), (''$orderby'', ''Id'')]
   \<and> params_ok [(''$select'', ''Id''), (''$filter'', ''Active eq true''), (''$orderby'', ''Id'')]
   \<and> chunk other_sizes id_chunk 20 = Inr [id_chunk]
   \<and> get_chunked always_ok example_urlparse other_sizes plain_client filtered_url
         ''Id eq {}'' id_chunk 20 fresh_world
       = (Inr (Some [JObj [(''Id'', JInt 1)]]),
          fresh_world\<lparr>sent := [HttpGet
             ''https://host/odata/Students?$select=Id&$filter=(Active eq true) and (Id eq 7 or Id eq 12)&$orderby=Id'']\<rparr>)
   \<and> (\<exists>n ks. n \<le> length [id_chunk] \<and> length ks = n
        \<and> ([id_chunk] \<noteq> [] \<longrightarrow> 0 < n)
        \<and> ((\<exists>records. Inr (Some [JObj [(''Id'', JInt 1)]]) = (Inr (Some records) :: error + json list option))
             \<longrightarrow> n = length [id_chunk])
        \<and> (\<forall>k \<in> set ks. k \<le> 1 + RETRIES \<and> (\<not> cache_query_requests plain_client \<longrightarrow> 1 \<le> k))
        \<and> [HttpGet
             ''https://host/odata/Students?$select=Id&$filter=(Active eq true) and (Id eq 7 or Id eq 12)&$orderby=Id'']
          = sent fresh_world
            @ batch_requests
                (\<lambda>list_chunk. base_url (example_urlparse filtered_url)
                   @ query_string
                       (merged_params
                          [(''$select'', ''Id''), (''$filter'', ''Active eq true''), (''$orderby'', ''Id'')]
                          (join '' or '' (chunk_filters ''Id eq {}'' list_chunk))))
                (zip (take n [id_chunk]) ks))"
proof -
  let ?params = "[(''$select'', ''Id''), (''$filter'', ''Active eq true''), (''$orderby'', ''Id'')]"
  have q: "query (example_urlparse filtered_url) = query_string ?params"
    by (simp add: example_urlparse_def filtered_url_def query_string_def)
  have ok: "params_ok ?params"
    by (simp add: params_ok_def)
  have ch: "chunk other_sizes id_chunk 20 = Inr [id_chunk]"
    by (simp add: chunk_def id_chunk_def upt_conv_Cons)
  have run: "get_chunked always_ok example_urlparse other_sizes plain_client filtered_url
         ''Id eq {}'' id_chunk 20 fresh_world
       = (Inr (Some [JObj [(''Id'', JInt 1)]]),
          fresh_world\<lparr>sent := [HttpGet
             ''https://host/odata/Students?$select=Id&$filter=(Active eq true) and (Id eq 7 or Id eq 12)&$orderby=Id'']\<rparr>)"
    by (simp add: get_chunked_def parse_query_def example_urlparse_def filtered_url_def
        chunk_def id_chunk_def upt_conv_Cons chunk_uri_def base_url_def
        query_copy_def chunk_filters_def str_int_def str_nat_digit engine_defs plain_client_def
        fresh_world_def always_ok_def students_body_def dict_has_def split_first_def str_nat_more)
  from get_chunked_requests_merged_filter[where urlparse = example_urlparse
      and url = filtered_url, OF q ok ch run] q ok ch run
  show ?thesis
    by simp
qed

section \<open>Properties of paged retrieval\<close>

lemma get_paged_enters:
  "paged_url_ok (urlparse url) \<Longrightarrow>
   get_paged srv urlparse c url page_size use_cache w
     = get_paged_loop srv c url (query_separator (urlparse url)) page_size use_cache
         ([], JInt (- 1), w)"
  by (auto simp: paged_url_ok_def get_paged_def split: sum.splits)

lemma get_paged_loop_Return:
  "paged_iteration srv c url sep page_size use_cache st = Return r \<Longrightarrow>
   get_paged_loop srv c url sep page_size use_cache st = Some r"
  by (subst get_paged_loop.simps) simp

lemma get_paged_loop_Continue:
  "paged_iteration srv c url sep page_size use_cache st = Continue st' \<Longrightarrow>
   get_paged_loop srv c url sep page_size use_cache st
     = get_paged_loop srv c url sep page_size use_cache st'"
  by (subst get_paged_loop.simps) simp

lemma paged_reach_same_result:
  "paged_reach srv c url sep page_size use_cache w0 st \<Longrightarrow>
   get_paged_loop srv c url sep page_size use_cache st
     = get_paged_loop srv c url sep page_size use_cache ([], JInt (- 1), w0)"
  by (induction rule: paged_reach.induct) (simp_all add: get_paged_loop_Continue)

lemma paged_iteration_none:
  "while_test total_records results = Inr True \<Longrightarrow>
   get srv c (page_uri url sep page_size (length results)) use_cache w1 = (Inr JNull, w2) \<Longrightarrow>
   paged_iteration srv c url sep page_size use_cache (results, total_records, w1)
     = Return (Inr JNull, w2)"
  by (simp add: paged_iteration_def)


lemma paged_iteration_none_only:
  assumes "paged_iteration srv c url sep page_size use_cache (results, total_records, w1)
             = Return (Inr JNull, w2)"
  shows "while_test total_records results = Inr True
    \<and> get srv c (page_uri url sep page_size (length results)) use_cache w1 = (Inr JNull, w2)"
proof (cases "while_test total_records results")
  case (Inl e)
  with assms show ?thesis by (simp add: paged_iteration_def)
next
  case (Inr b)
  show ?thesis
  proof (cases b)
    case False
    with Inr assms show ?thesis by (simp add: paged_iteration_def)
  next
    case True
    obtain r w' where g: "get srv c (page_uri url sep page_size (length results)) use_cache w1 = (r, w')"
      by (cases "get srv c (page_uri url sep page_size (length results)) use_cache w1")
    show ?thesis
    proof (cases r)
      case (Inl e)
      with Inr True g assms show ?thesis by (simp add: paged_iteration_def)
    next
      case r: (Inr body)
      show ?thesis
      proof (cases "body = JNull")
        case True
        with r Inr \<open>b\<close> g assms show ?thesis by (simp add: paged_iteration_def)
      next
        case False
        with r Inr \<open>b\<close> g assms show ?thesis
          by (simp add: paged_iteration_def split: sum.splits if_splits)
      qed
    qed
  qed
qed

lemma get_paged_loop_none_only:
  assumes "get_paged_loop srv c url sep page_size use_cache st = Some r"
  shows "paged_reach srv c url sep page_size use_cache w0 st \<longrightarrow>
         (\<forall>w2. r = (Inr JNull, w2) \<longrightarrow>
            (\<exists>results total_records w1.
               paged_reach srv c url sep page_size use_cache w0 (results, total_records, w1)
               \<and> while_test total_records results = Inr True
               \<and> get srv c (page_uri url sep page_size (length results)) use_cache w1
                   = (Inr JNull, w2)))"
proof (rule get_paged_loop.raw_induct[where P = "\<lambda>srv c url sep page_size use_cache st r.
      paged_reach srv c url sep page_size use_cache w0 st \<longrightarrow>
         (\<forall>w2. r = (Inr JNull, w2) \<longrightarrow>
            (\<exists>results total_records w1.
               paged_reach srv c url sep page_size use_cache w0 (results, total_records, w1)
               \<and> while_test total_records results = Inr True
               \<and> get srv c (page_uri url sep page_size (length results)) use_cache w1
                   = (Inr JNull, w2)))", OF _ assms])
  fix loop srv c url sep page_size use_cache st r
  assume IH: "\<And>srv c url sep page_size use_cache st r.
      loop srv c url sep page_size use_cache st = Some r \<Longrightarrow>
      paged_reach srv c url sep page_size use_cache w0 st \<longrightarrow>
         (\<forall>w2. r = (Inr JNull, w2) \<longrightarrow>
            (\<exists>results total_records w1.
               paged_reach srv c url sep page_size use_cache w0 (results, total_records, w1)
               \<and> while_test total_records results = Inr True
               \<and> get srv c (page_uri url sep page_size (length results)) use_cache w1
                   = (Inr JNull, w2)))"
    and body: "(case paged_iteration srv c url sep page_size use_cache st of
                 Continue st' \<Rightarrow> loop srv c url sep page_size use_cache st'
               | Return r \<Rightarrow> Some r) = Some r"
  show "paged_reach srv c url sep page_size use_cache w0 st \<longrightarrow>
         (\<forall>w2. r = (Inr JNull, w2) \<longrightarrow>
            (\<exists>results total_records w1.
               paged_reach srv c url sep page_size use_cache w0 (results, total_records, w1)
               \<and> while_test total_records results = Inr True
               \<and> get srv c (page_uri url sep page_size (length results)) use_cache w1
                   = (Inr JNull, w2)))"
  proof (intro impI allI)
    fix w2
    assume reach: "paged_reach srv c url sep page_size use_cache w0 st"
      and r: "r = (Inr JNull, w2)"
    show "\<exists>results total_records w1.
            paged_reach srv c url sep page_size use_cache w0 (results, total_records, w1)
            \<and> while_test total_records results = Inr True
            \<and> get srv c (page_uri url sep page_size (length results)) use_cache w1
                = (Inr JNull, w2)"
    proof (cases "paged_iteration srv c url sep page_size use_cache st")
      case (Continue st')
      with body have "loop srv c url sep page_size use_cache st' = Some r"
        by simp
      from IH[OF this] paged_reach.again[OF reach Continue] r show ?thesis
        by blast
    next
      case (Return r')
      obtain results total_records w1 where st: "st = (results, total_records, w1)"
        by (cases st)
      from Return body r st
      have "paged_iteration srv c url sep page_size use_cache (results, total_records, w1)
          = Return (Inr JNull, w2)"
        by simp
      from paged_iteration_none_only[OF this] reach st show ?thesis
        by blast
    qed
  qed
qed

lemma get_paged_none_only:
  assumes "get_paged srv urlparse c url page_size use_cache w = Some (Inr JNull, w2)"
  shows "\<exists>results total_records w1.
           paged_reach srv c url (query_separator (urlparse url)) page_size use_cache w
             (results, total_records, w1)
           \<and> while_test total_records results = Inr True
           \<and> get srv c (page_uri url (query_separator (urlparse url)) page_size (length results))
               use_cache w1 = (Inr JNull, w2)"
proof -
  from assms have "get_paged_loop srv c url (query_separator (urlparse url)) page_size use_cache
      ([], JInt (- 1), w) = Some (Inr JNull, w2)"
    by (auto simp: get_paged_def Let_def split: sum.splits if_splits)
  from get_paged_loop_none_only[OF this, of w] paged_reach.first show ?thesis
    by blast
qed

lemmas page_defs = page_uri_def students_uri_def str_int_def str_nat_digit

lemma students_url_ok: "paged_url_ok (example_urlparse students_uri)"
  by (simp add: paged_url_ok_def parse_query_def example_urlparse_def students_uri_def dict_has_def)

lemma students_separator: "query_separator (example_urlparse students_uri) = ''?''"
  by (simp add: query_separator_def example_urlparse_def students_uri_def)

lemma first_page_iteration:
  "paged_iteration (scripted (Response 200 (Some (listing [student 1, student 2] t)) # rest))
     plain_client students_uri ''?'' 2 None ([], JInt (- 1), fresh_world)
   = Continue ([student 1, student 2], JInt t, after_first_page)"
  by (simp add: paged_iteration_def while_test_def engine_defs plain_client_def fresh_world_def
      scripted_def listing_def after_first_page_def page_defs)

lemma first_page_reach:
  "paged_reach (scripted (Response 200 (Some (listing [student 1, student 2] t)) # rest))
     plain_client students_uri ''?'' 2 None fresh_world
     ([student 1, student 2], JInt t, after_first_page)"
  by (rule paged_reach.again[OF paged_reach.first first_page_iteration])

lemma second_page_times_out:
  "fst (get (scripted [Response 200 (Some (listing [student 1, student 2] 3))]) plain_client
       (page_uri students_uri ''?'' 2 (length [student 1, student 2])) None after_first_page)
     = Inr JNull"
  by (simp add: engine_defs plain_client_def fresh_world_def scripted_def after_first_page_def
      page_defs)


text \<open>
  C3. Whenever a call of \<open>get_paged\<close> reaches a page request whose \<open>get\<close> returns
  \<open>None\<close>, the call returns \<open>None\<close>, whatever was accumulated before, and does
  nothing further.
\<close>

theorem get_paged_none_when_page_fails:
  assumes "paged_url_ok (urlparse url)"
    and "paged_reach srv c url (query_separator (urlparse url)) page_size use_cache w
           (results, total_records, w1)"
    and "while_test total_records results = Inr True"
    and "get srv c (page_uri url (query_separator (urlparse url)) page_size (length results))
           use_cache w1 = (Inr JNull, w2)"
  shows "get_paged srv urlparse c url page_size use_cache w = Some (Inr JNull, w2)"
  using get_paged_enters[of urlparse url, OF assms(1)] paged_reach_same_result[OF assms(2)]
    get_paged_loop_Return[OF paged_iteration_none[OF assms(3,4)]]
  by simp

theorem get_paged_none_when_page_fails_witness:
  "paged_url_ok (example_urlparse students_uri)
   \<and> paged_reach (scripted [Response 200 (Some (listing [student 1, student 2] 3))])
        plain_client students_uri (query_separator (example_urlparse students_uri)) 2 None
        fresh_world ([student 1, student 2], JInt 3, after_first_page)
   \<and> while_test (JInt 3) [student 1, student 2] = Inr True
   \<and> fst (get (scripted [Response 200 (Some (listing [student 1, student 2] 3))]) plain_client
        (page_uri students_uri ''?'' 2 (length [student 1, student 2])) None after_first_page)
       = Inr JNull
   \<and> get_paged (scripted [Response 200 (Some (listing [student 1, student 2] 3))])
        example_urlparse plain_client students_uri 2 None fresh_world
       = Some (Inr JNull,
           snd (get (scripted [Response 200 (Some (listing [student 1, student 2] 3))])
             plain_client (page_uri students_uri ''?'' 2 (length [student 1, student 2])) None
             after_first_page))"
proof -
  let ?srv = "scripted [Response 200 (Some (listing [student 1, student 2] 3))]"
  let ?g = "get ?srv plain_client
      (page_uri students_uri ''?'' 2 (length [student 1, student 2])) None after_first_page"
  have r: "paged_reach ?srv plain_client students_uri
      (query_separator (example_urlparse students_uri)) 2 None
      fresh_world ([student 1, student 2], JInt 3, after_first_page)"
    unfolding students_separator by (rule first_page_reach)
  have t: "while_test (JInt 3) [student 1, student 2] = Inr True"
    by (simp add: while_test_def)
  have g: "get ?srv plain_client
      (page_uri students_uri (query_separator (example_urlparse students_uri)) 2
        (length [student 1, student 2])) None after_first_page = (Inr JNull, snd ?g)"
    unfolding students_separator using second_page_times_out by (simp add: prod_eq_iff)
  from get_paged_none_when_page_fails[of example_urlparse students_uri, OF students_url_ok r t g]
    students_url_ok r t second_page_times_out
  show ?thesis by simp
qed



section \<open>Complete paged retrievals\<close>

lemma reports_body:
  "reports r n \<Longrightarrow> \<exists>body. r = Inr body \<and> py_getitem body ''@odata.count'' = Inr (JInt n)"
  by (cases "(r, n)" rule: reports.cases) auto

lemma getitem_not_null: "py_getitem body k = Inr v \<Longrightarrow> body \<noteq> JNull"
  by auto

lemma paged_iteration_page:
  assumes "while_test total_records results = Inr True"
    and "get srv c (page_uri url sep page_size (length results)) use_cache w = (r, w1)"
    and "delivers r page" and "page \<noteq> []"
  shows "paged_iteration srv c url sep page_size use_cache (results, total_records, w)
    = (if py_eq_int total_records (- 1)
       then (case py_getitem (case r of Inr body \<Rightarrow> body) ''@odata.count'' of
               Inl e \<Rightarrow> Return (Inl e, w1)
             | Inr t \<Rightarrow> Continue (results @ page, t, w1))
       else Continue (results @ page, total_records, w1))"
proof -
  from delivers_body[OF assms(3)] obtain body where "r = Inr body"
    "py_getitem body ''value'' = Inr (JList page)"
    by blast
  with assms(1,2,4) getitem_not_null[of body "''value''"] show ?thesis
    by (simp add: paged_iteration_def)
qed

lemma paged_loop_rest:
  assumes "[] \<notin> set pages"
    and "length results + length (concat pages) = T"
    and "get_each srv c use_cache (page_uris url sep page_size (length results) pages) w = (rs, w')"
    and "list_all2 delivers rs pages"
  shows "get_paged_loop srv c url sep page_size use_cache (results, JInt (int T), w)
    = Some (Inr (JObj [(''value'', JList (results @ concat pages))]), w')"
  using assms
proof (induction pages arbitrary: results w rs)
  case Nil
  then have "paged_iteration srv c url sep page_size use_cache (results, JInt (int T), w)
      = Return (Inr (JObj [(''value'', JList results)]), w')"
    by (simp add: paged_iteration_def while_test_def)
  from get_paged_loop_Return[OF this] show ?case by simp
next
  case (Cons page pages)
  obtain r w1 where g: "get srv c (page_uri url sep page_size (length results)) use_cache w = (r, w1)"
    by (cases "get srv c (page_uri url sep page_size (length results)) use_cache w")
  obtain rs' w2 where e: "get_each srv c use_cache
      (page_uris url sep page_size (length results + length page) pages) w1 = (rs', w2)"
    by (cases "get_each srv c use_cache
      (page_uris url sep page_size (length results + length page) pages) w1")
  from Cons.prems(3) g e have rs: "rs = r # rs'" and w': "w' = w2"
    by simp_all
  from Cons.prems(4) rs have d: "delivers r page" and rest: "list_all2 delivers rs' pages"
    by simp_all
  from Cons.prems(1) have ne: "page \<noteq> []" and nes: "[] \<notin> set pages"
    by auto
  from Cons.prems(2) ne have t: "while_test (JInt (int T)) results = Inr True"
    by (cases page) (simp_all add: while_test_def)
  from paged_iteration_page[OF t g d ne]
  have "paged_iteration srv c url sep page_size use_cache (results, JInt (int T), w)
      = Continue (results @ page, JInt (int T), w1)"
    by simp
  from get_paged_loop_Continue[OF this]
    Cons.IH[of "results @ page" w1 rs', OF nes] Cons.prems(2) e rest w'
  show ?case by simp
qed

lemma two_pages_run:
  "get_each (scripted [Response 200 (Some a), Response 200 (Some b)]) plain_client None
     (page_uris students_uri ''?'' 2 0 [[x1, x2], p2]) fresh_world
   = ([Inr a, Inr b], after_second_page)"
  by (simp add: engine_defs plain_client_def fresh_world_def scripted_def after_second_page_def
      page_defs)

lemma second_page_iteration:
  "paged_iteration (scripted [Response 200 (Some a), Response 200 (Some (listing [x, y] n))])
     plain_client students_uri ''?'' 2 None ([student 1, student 2], JInt 3, after_first_page)
   = Continue ([student 1, student 2, x, y], JInt 3, after_second_page)"
  by (simp add: paged_iteration_def while_test_def engine_defs plain_client_def fresh_world_def
      scripted_def listing_def after_first_page_def after_second_page_def page_defs)

lemma third_iteration_returns:
  "paged_iteration srv c url sep page_size use_cache ([a, b, x, y], JInt 3, w)
   = Return (Inr (JObj [(''value'', JList [a, b, x, y])]), w)"
  by (simp add: paged_iteration_def while_test_def)

lemma growing_run:
  "get_paged growing_server example_urlparse plain_client students_uri 2 None fresh_world
   = Some (Inr (JObj [(''value'', JList [student 1, student 2, student 3, student 4])]),
           after_second_page)"
  unfolding get_paged_enters[of example_urlparse students_uri, OF students_url_ok]
    students_separator growing_server_def
  by (simp add: get_paged_loop_Continue[OF first_page_iteration]
      get_paged_loop_Continue[OF second_page_iteration]
      get_paged_loop_Return[OF third_iteration_returns])

text \<open>
  C2 as stated fails. Every page request succeeds, the first page reports a total of 3 and
  no page is empty, yet with a page size of 2 the second page brings the count to 4: the
  loop appends whole pages and stops once the count is no longer below the total.
\<close>

theorem get_paged_overshoots_total:
  "get_each growing_server plain_client None
     (page_uris students_uri ''?'' 2 0 [[student 1, student 2], [student 3, student 4]])
     fresh_world
     = ([Inr (listing [student 1, student 2] 3),
         Inr (listing [student 3, student 4] 3)], after_second_page)
   \<and> get_paged growing_server example_urlparse plain_client students_uri 2 None fresh_world
       = Some (Inr (JObj [(''value'', JList [student 1, student 2, student 3, student 4])]),
               after_second_page)
   \<and> length [student 1, student 2, student 3, student 4] \<noteq> 3"
  using two_pages_run[of _ _ "student 1" "student 2" "[student 3, student 4]"] growing_run
  by (simp add: growing_server_def)

text \<open>
  C2, amended. When the \<open>get\<close> for every page returns a body whose \<open>value\<close> is that
  page, the first body reports the total \<open>T\<close>, no page is empty before \<open>T\<close> records
  are accumulated, and the pages hold \<open>T\<close> records in all, \<open>get_paged\<close> returns, with
  exactly the effect of those page requests in order, the dictionary
  \<open>{'value': records}\<close> whose records are the pages concatenated in the order delivered:
  \<open>T\<close> records.
\<close>

theorem get_paged_returns_all_pages:
  assumes "paged_url_ok (urlparse url)"
    and "pages = [[]] \<or> (pages \<noteq> [] \<and> [] \<notin> set pages)"
    and "length (concat pages) = T"
    and "get_each srv c use_cache
           (page_uris url (query_separator (urlparse url)) page_size 0 pages) w = (rs, w')"
    and "list_all2 delivers rs pages"
    and "reports (hd rs) (int T)"
  shows "get_paged srv urlparse c url page_size use_cache w
           = Some (Inr (JObj [(''value'', JList (concat pages))]), w')
    \<and> length (concat pages) = T"
proof -
  let ?sep = "query_separator (urlparse url)"
  from assms(2) obtain page pages' where pages: "pages = page # pages'"
    by (cases pages) auto
  obtain r w1 where g: "get srv c (page_uri url ?sep page_size (length ([]::json list))) use_cache w = (r, w1)"
    by (cases "get srv c (page_uri url ?sep page_size (length ([]::json list))) use_cache w")
  obtain rs' w2 where e: "get_each srv c use_cache
      (page_uris url ?sep page_size (length page) pages') w1 = (rs', w2)"
    by (cases "get_each srv c use_cache (page_uris url ?sep page_size (length page) pages') w1")
  from assms(4) pages g e have rs: "rs = r # rs'" and w': "w' = w2"
    by simp_all
  from assms(5) rs pages have d: "delivers r page" and rest: "list_all2 delivers rs' pages'"
    by simp_all
  from assms(6) rs have rep: "reports r (int T)"
    by simp
  from delivers_body[OF d] reports_body[OF rep] obtain body where body: "r = Inr body"
    "py_getitem body ''value'' = Inr (JList page)"
    "py_getitem body ''@odata.count'' = Inr (JInt (int T))"
    by auto
  have t: "while_test (JInt (- 1)) [] = Inr True"
    by (simp add: while_test_def)
  have "get_paged_loop srv c url ?sep page_size use_cache ([], JInt (- 1), w)
      = Some (Inr (JObj [(''value'', JList (concat pages))]), w')"
  proof (cases "page = []")
    case True
    with assms(2) pages have p: "pages' = []" by auto
    with e w' have "w' = w1" by simp
    moreover from True body g t getitem_not_null[OF body(2)]
    have "paged_iteration srv c url ?sep page_size use_cache ([], JInt (- 1), w)
        = Return (Inr (JObj [(''value'', JList [])]), w1)"
      by (simp add: paged_iteration_def)
    ultimately show ?thesis
      using get_paged_loop_Return True p pages by simp
  next
    case False
    with assms(2) pages have nes: "[] \<notin> set pages'" by auto
    from paged_iteration_page[OF t g d False] body
    have "paged_iteration srv c url ?sep page_size use_cache ([], JInt (- 1), w)
        = Continue (page, JInt (int T), w1)"
      by simp
    from get_paged_loop_Continue[OF this]
      paged_loop_rest[OF nes _ e rest, of T] assms(3) pages w'
    show ?thesis by simp
  qed
  with get_paged_enters[of urlparse url, OF assms(1)] assms(3) show ?thesis
    by simp
qed

theorem get_paged_returns_all_pages_witness:
  "paged_url_ok (example_urlparse students_uri)
   \<and> length (concat [[student 1, student 2], [student 3]]) = 3
   \<and> get_each exact_server plain_client None
        (page_uris students_uri (query_separator (example_urlparse students_uri)) 2 0
           [[student 1, student 2], [student 3]]) fresh_world
       = ([Inr (listing [student 1, student 2] 3), Inr (listing [student 3] 3)],
          after_second_page)
   \<and> get_paged exact_server example_urlparse plain_client students_uri 2 None fresh_world
       = Some (Inr (JObj [(''value'', JList [student 1, student 2, student 3])]),
               after_second_page)"
proof -
  let ?pages = "[[student 1, student 2], [student 3]]"
  let ?rs = "[Inr (listing [student 1, student 2] 3), Inr (listing [student 3] 3)]"
  have p: "?pages = [[]] \<or> (?pages \<noteq> [] \<and> [] \<notin> set ?pages)"
    by simp
  have n: "length (concat ?pages) = 3"
    by simp
  have g: "get_each exact_server plain_client None
      (page_uris students_uri (query_separator (example_urlparse students_uri)) 2 0 ?pages)
      fresh_world = (?rs, after_second_page)"
    unfolding students_separator exact_server_def by (rule two_pages_run)
  have d: "list_all2 delivers ?rs ?pages"
    by (simp add: listing_def)
  have r: "reports (hd ?rs) (int 3)"
    by (simp add: listing_def)
  from get_paged_returns_all_pages[of example_urlparse students_uri, OF students_url_ok p n g d r]
    students_url_ok g
  show ?thesis by simp
qed

section \<open>Falsy responses\<close>

lemma falsy_getitem: "\<not> truthy body \<Longrightarrow> \<exists>e. py_getitem body k = Inl e"
  using getitem_truthy[of body k] by (cases "py_getitem body k") auto

lemma paged_iteration_falsy:
  assumes "while_test total_records results = Inr True"
    and "get srv c (page_uri url sep page_size (length results)) use_cache w1
           = (Inr body, w2)"
    and "body \<noteq> JNull" and "\<not> truthy body"
  shows "\<exists>e. paged_iteration srv c url sep page_size use_cache (results, total_records, w1)
           = Return (Inl e, w2)"
proof -
  from falsy_getitem[OF assms(4)] obtain e where "py_getitem body ''value'' = Inl e" ..
  with assms(1,2,3) show ?thesis
    by (simp add: paged_iteration_def)
qed

lemma failing_run:
  "get_paged failing_server example_urlparse plain_client students_uri 2 None fresh_world
   = Some (Inr JNull,
       snd (get failing_server plain_client (page_uri students_uri ''?'' 2 2) None
              after_first_page))"
proof -
  have len: "length [student 1, student 2] = 2"
    by simp
  have "fst (get failing_server plain_client (page_uri students_uri ''?'' 2 2) None
      after_first_page) = Inr JNull"
    using second_page_times_out unfolding failing_server_def len .
  then have "get failing_server plain_client
      (page_uri students_uri ''?'' 2 (length [student 1, student 2])) None after_first_page
      = (Inr JNull, snd (get failing_server plain_client (page_uri students_uri ''?'' 2 2) None
              after_first_page))"
    unfolding len by (simp add: prod_eq_iff)
  from paged_iteration_none[OF _ this, where total_records = "JInt 3"]
  have "paged_iteration failing_server plain_client students_uri ''?'' 2 None
      ([student 1, student 2], JInt 3, after_first_page)
      = Return (Inr JNull, snd (get failing_server plain_client (page_uri students_uri ''?'' 2 2)
          None after_first_page))"
    by (simp add: while_test_def)
  from get_paged_loop_Return[OF this] show ?thesis
    unfolding get_paged_enters[of example_urlparse students_uri, OF students_url_ok]
      students_separator
    by (simp add: failing_server_def get_paged_loop_Continue[OF first_page_iteration])
qed

lemma empty_object_get:
  "get empty_object_server plain_client uri None fresh_world
   = (Inr (JObj []), fresh_world\<lparr>sent := [HttpGet (strip_slash uri)]\<rparr>)"
  by (simp add: engine_defs plain_client_def fresh_world_def scripted_def empty_object_server_def)

text \<open>
  C10. In \<open>get_chunked\<close>, a batch whose \<open>get\<close> returns a falsy body, \<open>None\<close> or
  not, makes the call return \<open>None\<close> there, as a failed batch would. \<open>get_paged\<close>
  returns \<open>None\<close> only when it reached a page request whose \<open>get\<close> returned
  \<open>None\<close> itself; on a falsy body other than \<open>None\<close> it does not return
  \<open>None\<close>: indexing the body raises.
\<close>

theorem chunked_aborts_on_falsy_paged_only_on_none:
  "(parse_query (urlparse url) = Inr q
      \<and> chunk other to_chunk_list chunk_size = Inr (earlier @ list_chunk # later)
      \<and> chunked_loop srv c (urlparse url) q flt earlier [] w = (Inr (Some acc), w1)
      \<and> get srv c (chunk_uri (urlparse url) q flt list_chunk) None w1 = (Inr body, w2)
      \<and> \<not> truthy body
    \<longrightarrow> get_chunked srv urlparse other c url flt to_chunk_list chunk_size w = (Inr None, w2))
   \<and> (get_paged srv urlparse c url page_size use_cache w = Some (Inr JNull, w3)
    \<longrightarrow> (\<exists>results total_records w4.
           paged_reach srv c url (query_separator (urlparse url)) page_size use_cache w
             (results, total_records, w4)
           \<and> while_test total_records results = Inr True
           \<and> get srv c (page_uri url (query_separator (urlparse url)) page_size (length results))
               use_cache w4 = (Inr JNull, w3)))
   \<and> (paged_url_ok (urlparse url)
      \<and> paged_reach srv c url (query_separator (urlparse url)) page_size use_cache w
           (results, total_records, w5)
      \<and> while_test total_records results = Inr True
      \<and> get srv c (page_uri url (query_separator (urlparse url)) page_size (length results))
           use_cache w5 = (Inr response, w6)
      \<and> response \<noteq> JNull \<and> \<not> truthy response
    \<longrightarrow> (\<exists>e. get_paged srv urlparse c url page_size use_cache w = Some (Inl e, w6)))"
proof (intro conjI impI)
  assume a: "parse_query (urlparse url) = Inr q
      \<and> chunk other to_chunk_list chunk_size = Inr (earlier @ list_chunk # later)
      \<and> chunked_loop srv c (urlparse url) q flt earlier [] w = (Inr (Some acc), w1)
      \<and> get srv c (chunk_uri (urlparse url) q flt list_chunk) None w1 = (Inr body, w2)
      \<and> \<not> truthy body"
  then have "chunked_loop srv c (urlparse url) q flt (earlier @ list_chunk # later) [] w
      = chunked_loop srv c (urlparse url) q flt (list_chunk # later) acc w1"
    by (simp add: chunked_loop_append)
  also from a have "\<dots> = (Inr None, w2)"
    by (simp add: chunked_loop_falsy)
  finally show "get_chunked srv urlparse other c url flt to_chunk_list chunk_size w
      = (Inr None, w2)"
    using a by (simp add: get_chunked_def)
next
  assume "get_paged srv urlparse c url page_size use_cache w = Some (Inr JNull, w3)"
  then show "\<exists>results total_records w4.
           paged_reach srv c url (query_separator (urlparse url)) page_size use_cache w
             (results, total_records, w4)
           \<and> while_test total_records results = Inr True
           \<and> get srv c (page_uri url (query_separator (urlparse url)) page_size (length results))
               use_cache w4 = (Inr JNull, w3)"
    by (rule get_paged_none_only)
next
  assume a: "paged_url_ok (urlparse url)
      \<and> paged_reach srv c url (query_separator (urlparse url)) page_size use_cache w
           (results, total_records, w5)
      \<and> while_test total_records results = Inr True
      \<and> get srv c (page_uri url (query_separator (urlparse url)) page_size (length results))
           use_cache w5 = (Inr response, w6)
      \<and> response \<noteq> JNull \<and> \<not> truthy response"
  then obtain e where "paged_iteration srv c url (query_separator (urlparse url)) page_size
      use_cache (results, total_records, w5) = Return (Inl e, w6)"
    using paged_iteration_falsy by blast
  from get_paged_loop_Return[OF this] a
    get_paged_enters[of urlparse url srv c page_size use_cache w]
    paged_reach_same_result[of srv c url "query_separator (urlparse url)" page_size use_cache w
      "(results, total_records, w5)"]
  show "\<exists>e. get_paged srv urlparse c url page_size use_cache w = Some (Inl e, w6)"
    by simp
qed

theorem chunked_aborts_on_falsy_paged_only_on_none_witness:
  "\<not> truthy (JObj []) \<and> JObj [] \<noteq> JNull
   \<and> get_chunked empty_object_server example_urlparse other_sizes plain_client students_uri
        ''Id eq {}'' five_ids 2 fresh_world
       = (Inr None, fresh_world\<lparr>sent := [HttpGet (hd batch_uris)]\<rparr>)
   \<and> get_paged failing_server example_urlparse plain_client students_uri 2 None fresh_world
       = Some (Inr JNull,
           snd (get failing_server plain_client (page_uri students_uri ''?'' 2 2) None
                  after_first_page))
   \<and> (\<exists>results total_records w4.
         paged_reach failing_server plain_client students_uri ''?'' 2 None fresh_world
           (results, total_records, w4)
         \<and> get failing_server plain_client (page_uri students_uri ''?'' 2 (length results)) None w4
           = (Inr JNull,
              snd (get failing_server plain_client (page_uri students_uri ''?'' 2 2) None
                     after_first_page)))
   \<and> (\<exists>e. get_paged empty_object_server example_urlparse plain_client students_uri 2 None
              fresh_world
            = Some (Inl e, fresh_world\<lparr>sent := [HttpGet (page_uri students_uri ''?'' 2 0)]\<rparr>))"
proof -
  note claim = chunked_aborts_on_falsy_paged_only_on_none
  have p: "parse_query (example_urlparse students_uri) = Inr []"
    by (simp add: parse_query_def example_urlparse_def students_uri_def)
  have ch: "chunk other_sizes five_ids 2 = Inr ([] @ [PInt 1, PInt 2] # [[PInt 3, PInt 4], [PInt 5]])"
    using chunk_five by simp
  have l: "chunked_loop empty_object_server plain_client (example_urlparse students_uri) []
      ''Id eq {}'' [] [] fresh_world = (Inr (Some []), fresh_world)"
    by simp
  have u: "chunk_uri (example_urlparse students_uri) [] ''Id eq {}'' [PInt 1, PInt 2]
      = hd batch_uris"
    using batch_uris_eq by (simp add: batch_uris_def)
  have g: "get empty_object_server plain_client
      (chunk_uri (example_urlparse students_uri) [] ''Id eq {}'' [PInt 1, PInt 2]) None fresh_world
      = (Inr (JObj []), fresh_world\<lparr>sent := [HttpGet (hd batch_uris)]\<rparr>)"
    unfolding u empty_object_get by (simp add: batch_uris_def strip_slash_def)
  have f: "\<not> truthy (JObj [])"
    by simp
  have nn: "JObj [] \<noteq> JNull"
    by simp
  have a: "get_chunked empty_object_server example_urlparse other_sizes plain_client students_uri
        ''Id eq {}'' five_ids 2 fresh_world
       = (Inr None, fresh_world\<lparr>sent := [HttpGet (hd batch_uris)]\<rparr>)"
    using claim[where urlparse = example_urlparse and url = students_uri,
        THEN conjunct1, THEN mp, OF conjI[OF p conjI[OF ch conjI[OF l conjI[OF g f]]]]] .
  have b: "\<exists>results total_records w4.
         paged_reach failing_server plain_client students_uri ''?'' 2 None fresh_world
           (results, total_records, w4)
         \<and> get failing_server plain_client (page_uri students_uri ''?'' 2 (length results)) None w4
           = (Inr JNull,
              snd (get failing_server plain_client (page_uri students_uri ''?'' 2 2) None
                     after_first_page))"
    using claim[where urlparse = example_urlparse and url = students_uri,
        THEN conjunct2, THEN conjunct1, THEN mp, OF failing_run]
    unfolding students_separator by blast
  have t: "while_test (JInt (- 1)) [] = Inr True"
    by (simp add: while_test_def)
  have g0: "get empty_object_server plain_client
      (page_uri students_uri (query_separator (example_urlparse students_uri)) 2
         (length ([]::json list))) None fresh_world
      = (Inr (JObj []), fresh_world\<lparr>sent := [HttpGet (page_uri students_uri ''?'' 2 0)]\<rparr>)"
    unfolding students_separator empty_object_get by (simp add: strip_slash_def page_defs)
  have c: "\<exists>e. get_paged empty_object_server example_urlparse plain_client students_uri 2 None
              fresh_world
            = Some (Inl e, fresh_world\<lparr>sent := [HttpGet (page_uri students_uri ''?'' 2 0)]\<rparr>)"
    using claim[where urlparse = example_urlparse and url = students_uri,
        THEN conjunct2, THEN conjunct2, THEN mp,
        OF conjI[OF students_url_ok conjI[OF paged_reach.first conjI[OF t conjI[OF g0 conjI[OF nn f]]]]]] .
  from f a failing_run b c show ?thesis by blast
qed

end
